theory Spec2Isabelle
  imports
    Complex_Main
    "HOL-Library.AList"
    "HOL-Library.Char_ord"
    "HOL-Library.List_Lexorder"
    "HOL-Library.Sublist"
    "HOL-Library.Multiset"
begin

section \<open>QtLucide resource pipeline: strings, dictionaries and the symbol derivation\<close>

text \<open>
  The tools under \<^verbatim>\<open>src/tools\<close> are Python scripts. A Python \<^verbatim>\<open>str\<close> is modelled as a
  \<^typ>\<open>string\<close>, a \<^typ>\<open>char\<close> being a code point below 256; icon names are file stems of
  the Lucide set (lower-case ASCII letters, digits and hyphens). Python compares strings
  lexicographically by code point, which is the order of \<^theory_text>\<open>List_Lexorder\<close> over
  \<^theory_text>\<open>Char_ord\<close>; \<^verbatim>\<open>sorted(...)\<close> is \<^const>\<open>sort\<close>.

  A Python \<^verbatim>\<open>dict\<close> keeps its keys in insertion order and an assignment to an existing
  key keeps the key's position: it is an association list with distinct keys, written to
  with \<^const>\<open>AList.update\<close> and read with \<^const>\<open>map_of\<close>.
\<close>

subsection \<open>Character classes of the regular expressions\<close>

definition in_range :: "char \<Rightarrow> char \<Rightarrow> char \<Rightarrow> bool" where
  "in_range lo hi c \<longleftrightarrow> lo \<le> c \<and> c \<le> hi"

definition is_lower :: "char \<Rightarrow> bool" where
  "is_lower c = in_range CHR ''a'' CHR ''z'' c"

definition is_upper :: "char \<Rightarrow> bool" where
  "is_upper c = in_range CHR ''A'' CHR ''Z'' c"

definition is_digit :: "char \<Rightarrow> bool" where
  "is_digit c = in_range CHR ''0'' CHR ''9'' c"

text \<open>The class \<^verbatim>\<open>[a-zA-Z0-9_]\<close>; \<^verbatim>\<open>_name_to_enum\<close> substitutes its complement.\<close>

definition is_word_char :: "char \<Rightarrow> bool" where
  "is_word_char c \<longleftrightarrow> is_lower c \<or> is_upper c \<or> is_digit c \<or> c = CHR ''_''"

text \<open>
  \<^verbatim>\<open>re.sub(r"[^...]", repl, s)\<close>: every character outside the class is a match of
  length one and is replaced by \<open>repl\<close>; the other characters are copied.
\<close>

definition re_sub_not_class :: "(char \<Rightarrow> bool) \<Rightarrow> string \<Rightarrow> string \<Rightarrow> string" where
  "re_sub_not_class cls repl s = concat (map (\<lambda>c. if cls c then [c] else repl) s)"

text \<open>
  \<^verbatim>\<open>re.sub(r"^(\d)", r"Icon_\1", s)\<close>: the pattern is anchored at the start of the
  string, so at most the first character matches; the match is replaced by the prefix
  followed by the digit itself (group 1). The argument has been through the first
  substitution, so only ASCII digits can stand there.
\<close>

fun re_sub_leading_digit :: "string \<Rightarrow> string \<Rightarrow> string" where
  "re_sub_leading_digit pre [] = []"
| "re_sub_leading_digit pre (c # cs) = (if is_digit c then pre @ c # cs else c # cs)"

subsection \<open>\<^verbatim>\<open>generate_headers.py\<close>: \<^verbatim>\<open>_name_to_enum\<close>\<close>

definition cpp_keywords :: "string list" where
  "cpp_keywords =
    [''delete'', ''new'', ''class'', ''struct'', ''enum'', ''union'', ''typedef'',
     ''static'', ''const'', ''volatile'', ''inline'', ''virtual'', ''explicit'',
     ''operator'', ''template'', ''typename'', ''namespace'', ''using'', ''public'',
     ''private'', ''protected'', ''friend'', ''extern'', ''register'', ''auto'',
     ''void'', ''char'', ''short'', ''int'', ''long'', ''float'', ''double'',
     ''signed'', ''unsigned'', ''bool'', ''true'', ''false'', ''if'', ''else'',
     ''for'', ''while'', ''do'', ''switch'', ''case'', ''default'', ''break'',
     ''continue'', ''return'', ''goto'', ''try'', ''catch'', ''throw'', ''sizeof'']"

definition name_to_enum :: "string \<Rightarrow> string" where
  "name_to_enum name =
    (let enum_name = re_sub_not_class is_word_char ''_'' name;
         enum_name = re_sub_leading_digit ''Icon_'' enum_name
     in if enum_name \<in> set cpp_keywords then ''icon_'' @ enum_name else enum_name)"

subsection \<open>The symbol derivation as the specification words it\<close>

text \<open>
  The three steps of the specification, each a function of its own: (1) replace every
  character outside \<^verbatim>\<open>[A-Za-z0-9_]\<close> by an underscore, (2) prefix the marker token when
  the result starts with a digit, (3) prefix the escape token when the result is a
  reserved word. The marker is \<^verbatim>\<open>Icon_\<close>, the escape token \<^verbatim>\<open>icon_\<close>, and the closed set
  of reserved words is \<^const>\<open>cpp_keywords\<close>.
\<close>

definition spec_allowed :: "char set" where
  "spec_allowed =
     set ''ABCDEFGHIJKLMNOPQRSTUVWXYZ'' \<union> set ''abcdefghijklmnopqrstuvwxyz''
       \<union> set ''0123456789'' \<union> {CHR ''_''}"

definition spec_step1 :: "string \<Rightarrow> string" where
  "spec_step1 n = map (\<lambda>c. if c \<in> spec_allowed then c else CHR ''_'') n"

definition spec_step2 :: "string \<Rightarrow> string" where
  "spec_step2 s = (if s \<noteq> [] \<and> hd s \<in> set ''0123456789'' then ''Icon_'' @ s else s)"

definition spec_step3 :: "string \<Rightarrow> string" where
  "spec_step3 s = (if s \<in> set cpp_keywords then ''icon_'' @ s else s)"

definition spec_symbol :: "string \<Rightarrow> string" where
  "spec_symbol n = spec_step3 (spec_step2 (spec_step1 n))"

subsection \<open>Python string helpers\<close>

text \<open>\<^verbatim>\<open>sep.join(xs)\<close>.\<close>

fun join :: "string \<Rightarrow> string list \<Rightarrow> string" where
  "join sep [] = []"
| "join sep [x] = x"
| "join sep (x # y # ys) = x @ sep @ join sep (y # ys)"

text \<open>\<^verbatim>\<open>str(n)\<close> and \<^verbatim>\<open>f"{n}"\<close> for a non-negative integer: its decimal digits.\<close>

definition digit_char :: "nat \<Rightarrow> char" where
  "digit_char d = ''0123456789'' ! d"

function str_nat :: "nat \<Rightarrow> string" where
  "str_nat n = (if n < 10 then [digit_char n] else str_nat (n div 10) @ [digit_char (n mod 10)])"
  by pat_completeness auto
termination
  by (relation "measure id") auto

declare str_nat.simps [simp del]

text \<open>
  \<^verbatim>\<open>s.replace(old, new)\<close>: every occurrence of \<open>old\<close>, found from the left and not
  overlapping, is replaced. For the empty pattern Python puts \<open>new\<close> before every
  character and at the end.
\<close>

function str_replace :: "string \<Rightarrow> string \<Rightarrow> string \<Rightarrow> string" where
  "str_replace old new s =
     (if old = [] then new @ concat (map (\<lambda>c. c # new) s)
      else if s = [] then []
      else if prefix old s then new @ str_replace old new (drop (length old) s)
      else hd s # str_replace old new (tl s))"
  by pat_completeness auto
termination
  by (relation "measure (\<lambda>(old, new, s). length s)") auto

declare str_replace.simps [simp del]

text \<open>\<^verbatim>\<open>needle in haystack\<close> for two strings: \<open>needle\<close> occurs as a contiguous part.\<close>

fun str_in :: "string \<Rightarrow> string \<Rightarrow> bool" where
  "str_in needle [] \<longleftrightarrow> needle = []"
| "str_in needle (c # cs) \<longleftrightarrow> prefix needle (c # cs) \<or> str_in needle cs"

text \<open>
  \<^verbatim>\<open>s.split(sep)\<close> for a separator of one character: the pieces between the separators,
  empty pieces included.
\<close>

fun split_on :: "char \<Rightarrow> string \<Rightarrow> string list" where
  "split_on sep [] = [[]]"
| "split_on sep (c # cs) =
     (if c = sep then [] # split_on sep cs
      else (case split_on sep cs of
              [] \<Rightarrow> [[c]]
            | w # ws \<Rightarrow> (c # w) # ws))"

subsection \<open>\<^verbatim>\<open>generate_headers.py\<close>: the two header templates\<close>

definition enum_header_template :: string where
  "enum_header_template =
     ''/**\<newline>'' @
     '' * QtLucide - use Lucide icons in your Qt Application\<newline>'' @
     '' *\<newline>'' @
     '' * AUTO-GENERATED FILE - DO NOT EDIT MANUALLY\<newline>'' @
     '' * Generated from Lucide icon metadata\<newline>'' @
     '' *\<newline>'' @
     '' * MIT Licensed\<newline>'' @
     '' * Copyright 2025 Max Qian. All Rights Reserved.\<newline>'' @
     '' */\<newline>'' @
     ''\<newline>'' @
     ''#ifndef QTLUCIDEENUMS_H\<newline>'' @
     ''#define QTLUCIDEENUMS_H\<newline>'' @
     ''\<newline>'' @
     ''namespace lucide {\<newline>'' @
     ''\<newline>'' @
     ''/**\<newline>'' @
     '' * @brief Enumeration of all available Lucide icons\<newline>'' @
     '' */\<newline>'' @
     ''enum class Icons {\<newline>'' @
     ''{{ENUM_VALUES}}\<newline>'' @
     ''};\<newline>'' @
     ''\<newline>'' @
     ''/**\<newline>'' @
     '' * @brief Total number of available icons\<newline>'' @
     '' */\<newline>'' @
     ''constexpr int ICON_COUNT = {{ICON_COUNT}};\<newline>'' @
     ''\<newline>'' @
     ''} // namespace lucide\<newline>'' @
     ''\<newline>'' @
     ''#endif // QTLUCIDEENUMS_H''"

definition strings_header_template :: string where
  "strings_header_template =
     ''/**\<newline>'' @
     '' * QtLucide - use Lucide icons in your Qt Application\<newline>'' @
     '' *\<newline>'' @
     '' * AUTO-GENERATED FILE - DO NOT EDIT MANUALLY\<newline>'' @
     '' * Generated from Lucide icon metadata\<newline>'' @
     '' *\<newline>'' @
     '' * MIT Licensed\<newline>'' @
     '' * Copyright 2025 Max Qian. All Rights Reserved.\<newline>'' @
     '' */\<newline>'' @
     ''\<newline>'' @
     ''#ifndef QTLUCIDESTRINGS_H\<newline>'' @
     ''#define QTLUCIDESTRINGS_H\<newline>'' @
     ''\<newline>'' @
     ''#include \"QtLucideEnums.h\"\<newline>'' @
     ''#include <QHash>\<newline>'' @
     ''#include <QString>\<newline>'' @
     ''\<newline>'' @
     ''namespace lucide {\<newline>'' @
     ''\<newline>'' @
     ''/**\<newline>'' @
     '' * @brief Mapping from icon enum to string name\<newline>'' @
     '' */\<newline>'' @
     ''static const QHash<Icons, QString> ICON_TO_STRING_MAP = {\<newline>'' @
     ''{{STRING_MAPPINGS}}\<newline>'' @
     ''};\<newline>'' @
     ''\<newline>'' @
     ''/**\<newline>'' @
     '' * @brief Mapping from string name to icon enum\<newline>'' @
     '' */\<newline>'' @
     ''static QHash<QString, Icons> createStringToIconMap() {\<newline>'' @
     ''    QHash<QString, Icons> map;\<newline>'' @
     ''    for (auto it = ICON_TO_STRING_MAP.begin(); it != ICON_TO_STRING_MAP.end(); ++it) {\<newline>'' @
     ''        map[it.value()] = it.key();\<newline>'' @
     ''    }\<newline>'' @
     ''    return map;\<newline>'' @
     ''}\<newline>'' @
     ''\<newline>'' @
     ''static const QHash<QString, Icons> STRING_TO_ICON_MAP = createStringToIconMap();\<newline>'' @
     ''\<newline>'' @
     ''} // namespace lucide\<newline>'' @
     ''\<newline>'' @
     ''#endif // QTLUCIDESTRINGS_H''"

subsection \<open>\<^verbatim>\<open>generate_headers.py\<close>: \<^verbatim>\<open>generate_enums_header\<close> and \<^verbatim>\<open>generate_strings_header\<close>\<close>

text \<open>
  Both generators read only \<^verbatim>\<open>self.icons_data.keys()\<close>, the icon names of the loaded
  metadata store in the order of the file; \<open>keys\<close> below is that list (the keys of a
  dictionary, hence distinct). \<^verbatim>\<open>enumerate(sorted(keys))\<close> yields the pairs of
  \<^const>\<open>enumerate\<close> from zero.
\<close>

definition enum_values :: "string list \<Rightarrow> string list" where
  "enum_values keys =
     map (\<lambda>(i, icon_name). ''    '' @ name_to_enum icon_name @ '' = '' @ str_nat i)
       (enumerate 0 (sort keys))"

definition generate_enums_header :: "string list \<Rightarrow> string" where
  "generate_enums_header keys =
     (let header_content = enum_header_template;
          enum_content = join '',\<newline>'' (enum_values keys);
          header_content = str_replace ''{{ENUM_VALUES}}'' enum_content header_content;
          header_content = str_replace ''{{ICON_COUNT}}'' (str_nat (length keys)) header_content
      in header_content)"

definition string_entries :: "string list \<Rightarrow> string list" where
  "string_entries keys =
     map (\<lambda>icon_name. ''    {Icons::'' @ name_to_enum icon_name @ '', \"'' @ icon_name @ ''\"}'')
       (sort keys)"

definition generate_strings_header :: "string list \<Rightarrow> string" where
  "generate_strings_header keys =
     (let header_content = strings_header_template;
          strings_content = join '',\<newline>'' (string_entries keys);
          header_content = str_replace ''{{STRING_MAPPINGS}}'' strings_content header_content
      in header_content)"

subsection \<open>The C++ that the two generated headers contain\<close>

text \<open>
  The lookup tables are C++ of the strings header: \<^verbatim>\<open>ICON_TO_STRING_MAP\<close> is a
  \<^verbatim>\<open>QHash<Icons, QString>\<close> initialised with one entry \<^verbatim>\<open>{Icons::<symbol>, "<name>"}\<close> per
  line, its keys are values of the enumeration \<^verbatim>\<open>Icons\<close> that the enumeration header
  declares, and \<^verbatim>\<open>createStringToIconMap\<close> builds the inverse table. What the headers
  declare is read off their texts.

  The lines of a block: the lines of the text after the first line that is \<open>opening\<close>, up
  to the next line that is \<^verbatim>\<open>};\<close>. The comma that separates two items ends a line.
\<close>

definition block_lines :: "string \<Rightarrow> string \<Rightarrow> string list option" where
  "block_lines opening text =
     (case dropWhile (\<lambda>l. l \<noteq> opening) (split_on CHR 0x0A text) of
        [] \<Rightarrow> None
      | l # ls \<Rightarrow> if ''};'' \<in> set ls then Some (takeWhile (\<lambda>l. l \<noteq> ''};'') ls) else None)"

definition strip_comma :: "string \<Rightarrow> string" where
  "strip_comma l = (if l \<noteq> [] \<and> last l = CHR '','' then butlast l else l)"

text \<open>
  The keywords of C++ (up to C++20) and the alternative tokens; none of them can name an
  enumerator. The generator escapes the words of \<^const>\<open>cpp_keywords\<close>, which are some of
  them.
\<close>

definition cxx_reserved_words :: "string list" where
  "cxx_reserved_words =
    [''alignas'', ''alignof'', ''asm'', ''auto'', ''bool'', ''break'', ''case'', ''catch'',
     ''char'', ''char8_t'', ''char16_t'', ''char32_t'', ''class'', ''concept'', ''const'',
     ''consteval'', ''constexpr'', ''constinit'', ''const_cast'', ''continue'', ''co_await'',
     ''co_return'', ''co_yield'', ''decltype'', ''default'', ''delete'', ''do'', ''double'',
     ''dynamic_cast'', ''else'', ''enum'', ''explicit'', ''export'', ''extern'', ''false'',
     ''float'', ''for'', ''friend'', ''goto'', ''if'', ''inline'', ''int'', ''long'',
     ''mutable'', ''namespace'', ''new'', ''noexcept'', ''nullptr'', ''operator'', ''private'',
     ''protected'', ''public'', ''register'', ''reinterpret_cast'', ''requires'', ''return'',
     ''short'', ''signed'', ''sizeof'', ''static'', ''static_assert'', ''static_cast'',
     ''struct'', ''switch'', ''template'', ''this'', ''thread_local'', ''throw'', ''true'',
     ''try'', ''typedef'', ''typeid'', ''typename'', ''union'', ''unsigned'', ''using'',
     ''virtual'', ''void'', ''volatile'', ''wchar_t'', ''while'',
     ''and'', ''and_eq'', ''bitand'', ''bitor'', ''compl'', ''not'', ''not_eq'', ''or'',
     ''or_eq'', ''xor'', ''xor_eq'']"

definition is_identifier :: "string \<Rightarrow> bool" where
  "is_identifier s \<longleftrightarrow>
     s \<noteq> [] \<and> list_all is_word_char s \<and> \<not> is_digit (hd s) \<and> s \<notin> set cxx_reserved_words"

text \<open>
  A decimal literal: digits, the first of which is not \<^verbatim>\<open>0\<close> unless it is the only one
  (a longer literal that starts with \<^verbatim>\<open>0\<close> is octal, and the generator writes none).
\<close>

definition digit_value :: "char \<Rightarrow> nat" where
  "digit_value c = of_char c - 48"

definition read_decimal :: "string \<Rightarrow> nat option" where
  "read_decimal ds =
     (if ds \<noteq> [] \<and> list_all is_digit ds \<and> (length ds = 1 \<or> hd ds \<noteq> CHR ''0'')
      then Some (fold (\<lambda>c n. 10 * n + digit_value c) ds 0)
      else None)"

text \<open>
  An enumerator as the generator writes it: four blanks, an identifier, \<^verbatim>\<open> = \<close> and a
  decimal literal. A line of another shape is not read.
\<close>

definition read_enumerator :: "string \<Rightarrow> (string \<times> nat) option" where
  "read_enumerator l =
     (let body = drop 4 l;
          ident = takeWhile is_word_char body;
          rest = dropWhile is_word_char body
      in if take 4 l = ''    '' \<and> is_identifier ident \<and> take 3 rest = '' = ''
         then map_option (\<lambda>v. (ident, v)) (read_decimal (drop 3 rest))
         else None)"

text \<open>
  A string literal denotes the characters between its quotes when none of them is a
  quote, a backslash or a line break. An entry as the generator writes it: four blanks,
  \<^verbatim>\<open>{Icons::\<close>, the enumerator, a comma and a blank, the string literal, \<^verbatim>\<open>}\<close>.
\<close>

definition plain_literal :: "string \<Rightarrow> bool" where
  "plain_literal s = list_all (\<lambda>c. c \<notin> set [CHR 0x22, CHR 0x5C, CHR 0x0A, CHR 0x0D]) s"

definition read_entry :: "string \<Rightarrow> (string \<times> string) option" where
  "read_entry l =
     (let body = drop 12 l;
          ident = takeWhile is_word_char body;
          rest = dropWhile is_word_char body;
          lit = drop 3 rest;
          chars = take (length lit - 2) lit
      in if take 12 l = ''    {Icons::'' \<and> ident \<noteq> [] \<and> take 3 rest = '', \"''
            \<and> 2 \<le> length lit \<and> drop (length lit - 2) lit = ''\"}'' \<and> plain_literal chars
         then Some (ident, chars)
         else None)"

text \<open>
  Why a header declares nothing: the block is not found, a line of the block is not read,
  an enumerator is declared twice, or an entry names an enumerator that is not declared.
\<close>

datatype cxx_error = NoBlock | BadLine | Redeclaration | UndeclaredEnumerator

text \<open>
  The enumerators of \<^verbatim>\<open>enum class Icons\<close> in the text of the enumeration header, each with
  its value. Declaring a name twice in one enumeration is an error.
\<close>

definition declared_enumerators :: "string \<Rightarrow> cxx_error + (string \<times> nat) list" where
  "declared_enumerators text =
     (case block_lines ''enum class Icons {'' text of
        None \<Rightarrow> Inl NoBlock
      | Some ls \<Rightarrow>
          (case those (map (\<lambda>l. read_enumerator (strip_comma l)) (filter (\<lambda>l. l \<noteq> []) ls)) of
             None \<Rightarrow> Inl BadLine
           | Some enumerators \<Rightarrow>
               if distinct (map fst enumerators) then Inr enumerators else Inl Redeclaration))"

text \<open>
  A \<^verbatim>\<open>QHash\<close> built from an initialiser list: the entries are inserted one after the
  other, and inserting a key that is present replaces its value. The hash is an
  association list with distinct keys.
\<close>

definition qhash_from_list :: "('k \<times> 'v) list \<Rightarrow> ('k \<times> 'v) list" where
  "qhash_from_list entries = fold (\<lambda>(k, v) h. AList.update k v h) entries []"

text \<open>
  The table that the text of the strings header declares, given the enumerators: every
  entry's \<^verbatim>\<open>Icons::<symbol>\<close> is the value declared for the symbol.
\<close>

definition declared_table ::
    "string \<Rightarrow> (string \<times> nat) list \<Rightarrow> cxx_error + (nat \<times> string) list" where
  "declared_table text enumerators =
     (case block_lines ''static const QHash<Icons, QString> ICON_TO_STRING_MAP = {'' text of
        None \<Rightarrow> Inl NoBlock
      | Some ls \<Rightarrow>
          (case those (map (\<lambda>l. read_entry (strip_comma l)) (filter (\<lambda>l. l \<noteq> []) ls)) of
             None \<Rightarrow> Inl BadLine
           | Some entries \<Rightarrow>
               (case those (map (\<lambda>(ident, s). map_option (\<lambda>v. (v, s)) (map_of enumerators ident))
                              entries) of
                  None \<Rightarrow> Inl UndeclaredEnumerator
                | Some pairs \<Rightarrow> Inr (qhash_from_list pairs))))"

text \<open>The table of the two headers generated for the icon names \<open>keys\<close>.\<close>

definition ICON_TO_STRING_MAP :: "string list \<Rightarrow> cxx_error + (nat \<times> string) list" where
  "ICON_TO_STRING_MAP keys =
     (case declared_enumerators (generate_enums_header keys) of
        Inl e \<Rightarrow> Inl e
      | Inr enumerators \<Rightarrow> declared_table (generate_strings_header keys) enumerators)"

text \<open>
  \<^verbatim>\<open>createStringToIconMap\<close> of the template walks over \<^verbatim>\<open>ICON_TO_STRING_MAP\<close> and stores
  \<^verbatim>\<open>map[it.value()] = it.key()\<close>. A \<^verbatim>\<open>QHash\<close> is walked in an order of its own, so the
  function takes the entries in the order \<open>visited\<close> in which the iterator yields them.
\<close>

definition createStringToIconMap :: "(nat \<times> string) list \<Rightarrow> (string \<times> nat) list" where
  "createStringToIconMap visited = fold (\<lambda>(key, val) m. AList.update val key m) visited []"

text \<open>
  The text of each template around its placeholders, to state what the generators emit:
  \<^const>\<open>enum_header_template\<close> is \<open>enum_pre\<close>, \<^verbatim>\<open>{{ENUM_VALUES}}\<close>, \<open>enum_mid\<close>,
  \<^verbatim>\<open>{{ICON_COUNT}}\<close>, \<open>enum_post\<close>, and \<^const>\<open>strings_header_template\<close> is \<open>strings_pre\<close>,
  \<^verbatim>\<open>{{STRING_MAPPINGS}}\<close>, \<open>strings_post\<close>.
\<close>

definition enum_pre :: string where
  "enum_pre = take 367 enum_header_template"

definition enum_mid :: string where
  "enum_mid = take 82 (drop 382 enum_header_template)"

definition enum_post :: string where
  "enum_post = drop 478 enum_header_template"

definition strings_pre :: string where
  "strings_pre = take 470 strings_header_template"

definition strings_post :: string where
  "strings_post = drop 489 strings_header_template"

section \<open>Metadata synthesis\<close>

subsection \<open>The metadata store\<close>

text \<open>
  One entry of \<^verbatim>\<open>icons.json\<close>, the document \<^verbatim>\<open>icons.json\<close> itself, and the two indices
  \<^verbatim>\<open>categories.json\<close> and \<^verbatim>\<open>tags.json\<close>. \<^verbatim>\<open>json.dump\<close> is called without \<^verbatim>\<open>sort_keys\<close>: it
  writes the keys of a dictionary in the dictionary's order and the elements of a list in
  the list's order, so two documents are the same text exactly when they are equal as
  the ordered values below.
\<close>

record icon_record =
  name :: string
  svg_file :: string
  tags :: "string list"
  categories :: "string list"
  contributors :: "string list"

record icons_metadata =
  icons :: "(string \<times> icon_record) list"
  count :: nat
  version :: string

type_synonym label_index = "(string \<times> string list) list"

record metadata_files =
  icons_json :: icons_metadata
  categories_json :: label_index
  tags_json :: label_index

subsection \<open>\<^verbatim>\<open>build_resources.py\<close>: tags and categories from the name\<close>

text \<open>
  \<^verbatim>\<open>s.split()\<close> without argument: the maximal runs of characters that are not white
  space, in order; no empty string is produced. Among the code points below 256, white
  space (\<^verbatim>\<open>str.isspace\<close>) is 9 to 13, 28 to 32, 133 and 160.
\<close>

definition is_space :: "char \<Rightarrow> bool" where
  "is_space c \<longleftrightarrow>
     (of_char c :: nat) \<in> set [9, 10, 11, 12, 13, 28, 29, 30, 31, 32, 133, 160]"

fun split_words :: "string \<Rightarrow> string \<Rightarrow> string list" where
  "split_words w [] = (if w = [] then [] else [w])"
| "split_words w (c # cs) =
     (if is_space c then (if w = [] then split_words [] cs else w # split_words [] cs)
      else split_words (w @ [c]) cs)"

definition py_split :: "string \<Rightarrow> string list" where
  "py_split s = split_words [] s"

text \<open>\<^verbatim>\<open>any(word in s for word in words)\<close>.\<close>

definition any_word_in :: "string list \<Rightarrow> string \<Rightarrow> bool" where
  "any_word_in words s = list_ex (\<lambda>word. str_in word s) words"

text \<open>
  \<^verbatim>\<open>list(set(tags))\<close> yields the distinct elements of \<open>tags\<close> in the iteration order of a
  Python set, which the language leaves open and which, for strings, follows the hash
  seed of the process. The order is a parameter \<open>list_set\<close> of the model: the function
  that this process computes for \<^verbatim>\<open>list(set(xs))\<close>. Whatever the process, its result has
  the elements of \<open>xs\<close>, each once.
\<close>

definition iteration_order :: "(string list \<Rightarrow> string list) \<Rightarrow> bool" where
  "iteration_order list_set \<longleftrightarrow> (\<forall>xs. distinct (list_set xs) \<and> set (list_set xs) = set xs)"

definition generate_tags_from_name :: "(string list \<Rightarrow> string list) \<Rightarrow> string \<Rightarrow> string list" where
  "generate_tags_from_name list_set nm =
     (let parts = py_split (str_replace ''-'' '' '' nm);
          tgs = [] @ parts;
          tgs = (if any_word_in [''arrow'', ''chevron''] nm then tgs @ [''navigation''] else tgs);
          tgs = (if any_word_in [''file'', ''folder'', ''document''] nm then tgs @ [''files''] else tgs);
          tgs = (if any_word_in [''user'', ''person'', ''people''] nm then tgs @ [''users''] else tgs);
          tgs = (if any_word_in [''heart'', ''star'', ''like''] nm then tgs @ [''social''] else tgs)
      in list_set tgs)"

definition category_keywords :: "(string \<times> string list) list" where
  "category_keywords =
    [(''navigation'', [''arrow'', ''chevron'', ''menu'', ''home'', ''back'', ''forward'']),
     (''files'', [''file'', ''folder'', ''document'', ''save'', ''download'', ''upload'']),
     (''communication'', [''mail'', ''message'', ''phone'', ''chat'', ''send'']),
     (''media'', [''play'', ''pause'', ''stop'', ''music'', ''video'', ''camera'']),
     (''social'', [''heart'', ''star'', ''like'', ''share'', ''user'', ''users'']),
     (''system'', [''settings'', ''cog'', ''gear'', ''power'', ''battery'', ''wifi'']),
     (''editing'', [''edit'', ''pen'', ''pencil'', ''brush'', ''cut'', ''copy'', ''paste'']),
     (''business'', [''briefcase'', ''chart'', ''graph'', ''money'', ''bank'', ''credit''])]"

text \<open>The loop of \<^verbatim>\<open>_categorize_icon\<close> over \<^verbatim>\<open>category_keywords.items()\<close>, then the fallback.\<close>

definition categorize_icon :: "string \<Rightarrow> string list" where
  "categorize_icon nm =
     (let cats = fold (\<lambda>(category, keywords) cats.
                    if any_word_in keywords nm then cats @ [category] else cats)
                  category_keywords []
      in if cats = [] then cats @ [''general''] else cats)"

subsection \<open>\<^verbatim>\<open>build_resources.py\<close>: \<^verbatim>\<open>_generate_categories_and_tags\<close>\<close>

text \<open>
  \<^verbatim>\<open>if label not in index: index[label] = []\<close> followed by
  \<^verbatim>\<open>index[label].append(icon_name)\<close>: a new label is added after the present ones with the
  one name, a present label keeps its place and gets the name at the end of its list.
\<close>

fun index_append :: "'k \<Rightarrow> 'v \<Rightarrow> ('k \<times> 'v list) list \<Rightarrow> ('k \<times> 'v list) list" where
  "index_append label icon_name [] = [(label, [icon_name])]"
| "index_append label icon_name ((k, names) # rest) =
     (if k = label then (k, names @ [icon_name]) # rest
      else (k, names) # index_append label icon_name rest)"

definition generate_categories_and_tags ::
    "(string \<times> icon_record) list \<Rightarrow> label_index \<times> label_index" where
  "generate_categories_and_tags icons_data =
     fold (\<lambda>(icon_name, icon_data) (cats, tgs).
             (fold (\<lambda>category cats. index_append category icon_name cats)
                (categories icon_data) cats,
              fold (\<lambda>tag tgs. index_append tag icon_name tgs) (tags icon_data) tgs))
       icons_data ([], [])"

subsection \<open>\<^verbatim>\<open>build_resources.py\<close>: \<^verbatim>\<open>scan_svg_files\<close> and \<^verbatim>\<open>generate_metadata_from_svg\<close>\<close>

text \<open>
  The SVG directory is \<open>None\<close> when it does not exist, and otherwise the stems of its
  \<^verbatim>\<open>*.svg\<close> files in the order in which \<^verbatim>\<open>glob\<close> yields them, which is the order of the
  directory on disk and not sorted.
\<close>

definition scan_svg_files :: "string list option \<Rightarrow> string list" where
  "scan_svg_files svg_dir = (case svg_dir of None \<Rightarrow> [] | Some stems \<Rightarrow> stems)"

text \<open>The loop of \<^verbatim>\<open>generate_metadata_from_svg\<close> that fills \<^verbatim>\<open>icons_data\<close>.\<close>

definition build_icons_data ::
    "(string list \<Rightarrow> string list) \<Rightarrow> string list \<Rightarrow> (string \<times> icon_record) list" where
  "build_icons_data list_set svg_names =
     fold (\<lambda>svg_name icons_data.
              AList.update svg_name
                \<lparr>name = svg_name,
                 svg_file = ''svg/'' @ svg_name @ ''.svg'',
                 tags = generate_tags_from_name list_set svg_name,
                 categories = categorize_icon svg_name,
                 contributors = []\<rparr> icons_data) svg_names []"

definition generate_metadata_from_svg ::
    "(string list \<Rightarrow> string list) \<Rightarrow> string list option \<Rightarrow> metadata_files" where
  "generate_metadata_from_svg list_set svg_dir =
     (let svg_names = scan_svg_files svg_dir;
          icons_data = build_icons_data list_set svg_names;
          icons_metadata = \<lparr>icons = icons_data, count = length icons_data, version = ''1.0.0''\<rparr>;
          (cats, tgs) = generate_categories_and_tags icons_data
      in \<lparr>icons_json = icons_metadata, categories_json = cats, tags_json = tgs\<rparr>)"

subsection \<open>\<^verbatim>\<open>process_lucide_icons.py\<close>\<close>

text \<open>
  One \<^verbatim>\<open>*.svg\<close> file of the Lucide checkout: its stem, its text (\<open>None\<close> when reading
  raises), the \<^verbatim>\<open>.json\<close> file beside it, and whether the optimised SVG can be written.
  The JSON file is absent, or fails to load as an object, or is an object whose keys
  \<^verbatim>\<open>tags\<close>, \<^verbatim>\<open>categories\<close> and \<^verbatim>\<open>contributors\<close> are each present or not.
\<close>

datatype sidecar =
    NoSidecar
  | BadSidecar
  | Sidecar (sc_tags: "string list option") (sc_categories: "string list option")
      (sc_contributors: "string list option")

record lucide_file =
  stem :: string
  svg_content :: "string option"
  json_file :: sidecar
  write_ok :: bool

text \<open>\<^verbatim>\<open>metadata.get(key, [])\<close>.\<close>

definition get_list :: "string list option \<Rightarrow> string list" where
  "get_list v = (case v of None \<Rightarrow> [] | Some xs \<Rightarrow> xs)"

text \<open>
  \<^verbatim>\<open>process_single_icon\<close>: every exception inside the \<^verbatim>\<open>try\<close> block is caught, the icon is
  not stored and \<open>False\<close> is returned. The text written to the output SVG does not
  enter the metadata and is left out.
\<close>

definition process_single_icon ::
    "lucide_file \<Rightarrow> (string \<times> icon_record) list \<Rightarrow> bool \<times> (string \<times> icon_record) list" where
  "process_single_icon f icons_data =
     (let icon_name = stem f in
      case svg_content f of
        None \<Rightarrow> (False, icons_data)
      | Some content \<Rightarrow>
         (case json_file f of
            BadSidecar \<Rightarrow> (False, icons_data)
          | NoSidecar \<Rightarrow>
              if write_ok f then
                (True, AList.update icon_name
                   \<lparr>name = icon_name, svg_file = ''svg/'' @ icon_name @ ''.svg'',
                    tags = [], categories = [], contributors = []\<rparr> icons_data)
              else (False, icons_data)
          | Sidecar t c k \<Rightarrow>
              if write_ok f then
                (True, AList.update icon_name
                   \<lparr>name = icon_name, svg_file = ''svg/'' @ icon_name @ ''.svg'',
                    tags = get_list t, categories = get_list c,
                    contributors = get_list k\<rparr> icons_data)
              else (False, icons_data)))"

text \<open>\<^verbatim>\<open>generate_metadata\<close> of the processor: the same three documents, the two indices built by one loop each.\<close>

definition generate_metadata :: "(string \<times> icon_record) list \<Rightarrow> metadata_files" where
  "generate_metadata icons_data =
     (let icon_list = \<lparr>icons = icons_data, count = length icons_data, version = ''1.0.0''\<rparr>;
          cats = fold (\<lambda>(icon_name, icon_data) cats.
                    fold (\<lambda>category cats. index_append category icon_name cats)
                      (categories icon_data) cats) icons_data [];
          tgs = fold (\<lambda>(icon_name, icon_data) tgs.
                    fold (\<lambda>tag tgs. index_append tag icon_name tgs) (tags icon_data) tgs)
                  icons_data []
      in \<lparr>icons_json = icon_list, categories_json = cats, tags_json = tgs\<rparr>)"

text \<open>
  \<^verbatim>\<open>process_icons\<close>: the loop over the files in \<^verbatim>\<open>glob\<close> order, which counts the
  successes and fills \<^verbatim>\<open>self.icons_data\<close>, then the metadata.
\<close>

definition process_loop :: "lucide_file list \<Rightarrow> nat \<times> (string \<times> icon_record) list" where
  "process_loop icon_files =
     fold (\<lambda>svg_file (processed_count, icons_data).
             case process_single_icon svg_file icons_data of
               (True, icons_data') \<Rightarrow> (processed_count + 1, icons_data')
             | (False, icons_data') \<Rightarrow> (processed_count, icons_data'))
       icon_files (0, [])"

definition process_icons :: "lucide_file list \<Rightarrow> nat \<times> metadata_files" where
  "process_icons icon_files =
     (let (processed_count, icons_data) = process_loop icon_files
      in (processed_count, generate_metadata icons_data))"

subsection \<open>Reading an index\<close>

text \<open>
  To state what an index holds: the names listed under a label (none when the label is
  not a key), and the names of the catalog that carry a label, in the order of the
  catalog and once for every time the label stands in the record's list.
\<close>

definition names_under :: "label_index \<Rightarrow> string \<Rightarrow> string list" where
  "names_under idx label = (case map_of idx label of None \<Rightarrow> [] | Some names \<Rightarrow> names)"

definition names_carrying ::
    "(icon_record \<Rightarrow> string list) \<Rightarrow> (string \<times> icon_record) list \<Rightarrow> string \<Rightarrow> string list" where
  "names_carrying labels icons_data label =
     concat (map (\<lambda>(icon_name, icon_data).
                    map (\<lambda>_. icon_name) (filter (\<lambda>l. l = label) (labels icon_data)))
               icons_data)"

section \<open>Usage validation\<close>

subsection \<open>\<^verbatim>\<open>validate_icon_usage.py\<close>: candidate literals\<close>

text \<open>
  \<^verbatim>\<open>re.match(r"^[a-z][a-z0-9-]*[a-z0-9]$", name)\<close>: a lower-case letter, then letters,
  digits and hyphens, then a letter or digit, up to the end of the string; \<^verbatim>\<open>$\<close> also
  matches before a line feed that ends the string.
\<close>

definition is_name_char :: "char \<Rightarrow> bool" where
  "is_name_char c \<longleftrightarrow> is_lower c \<or> is_digit c \<or> c = CHR ''-''"

definition icon_shape :: "string \<Rightarrow> bool" where
  "icon_shape s \<longleftrightarrow>
     (case s of
        [] \<Rightarrow> False
      | c # cs \<Rightarrow> is_lower c \<and> cs \<noteq> [] \<and> list_all is_name_char (butlast cs)
                  \<and> (is_lower (last cs) \<or> is_digit (last cs)))"

definition re_match_icon_shape :: "string \<Rightarrow> bool" where
  "re_match_icon_shape s \<longleftrightarrow>
     icon_shape s \<or> (s \<noteq> [] \<and> last s = CHR 0x0A \<and> icon_shape (butlast s))"

definition non_icon_words :: "string list" where
  "non_icon_words =
    [''error'', ''warning'', ''info'', ''debug'', ''test'', ''example'', ''sample'',
     ''main'', ''window'', ''widget'', ''button'', ''label'', ''layout'', ''dialog'',
     ''application'', ''version'', ''author'', ''license'', ''copyright'', ''true'',
     ''false'', ''null'', ''undefined'', ''none'', ''empty'', ''color'', ''size'',
     ''width'', ''height'', ''opacity'', ''scale-factor'', ''geometry'', ''icon'', ''svg'',
     ''png'', ''ico'', ''pdf'', ''icns'', ''selected'', ''hovered'', ''favorite'',
     ''name'', ''format'', ''mode'', ''clicked'', ''about'', ''value'', ''count'',
     ''icons'', ''px'', ''ms'', ''theme'', ''system'', ''light'', ''dark'', ''compact'',
     ''grid'', ''language'', ''en'', ''black'', ''white'', ''non-existent-icon'',
     ''test-icon'', ''invalid-icon'', ''example-icon'', ''heart-icon'', ''icon-heart'',
     ''test-null'', ''not-a-color'', ''not-a-number'', ''corrupted-test'',
     ''null-painter'', ''invalid-painter'', ''exception-painter'', ''test-painter'',
     ''memory-test-painter'', ''replacement-painter'', ''lifetime-painter'',
     ''non-existent'', ''invalid'', ''unknown'', ''high-contrast'', ''color-disabled'',
     ''test-option'', ''test-value'', ''race-painter'', ''extreme-painter'',
     ''memory-painter'', ''slow-painter'', ''categories'', ''contributors'', ''favorites'',
     ''timestamp'', ''usage'', ''recent'', ''criteria'', ''quotes'', ''with'', ''nested'',
     ''level1'', ''level2'', ''level3'', ''value1'', ''value2'', ''inner'', ''x64'',
     ''arrows'', ''communication'', ''media'', ''cal'', ''arrow'']"

definition looks_like_icon_name :: "string \<Rightarrow> bool" where
  "looks_like_icon_name nm =
     (if length nm < 2 \<or> length nm > 50 then False
      else if \<not> re_match_icon_shape nm then False
      else if nm \<in> set non_icon_words then False
      else True)"

text \<open>
  A line of a source file as the scanner sees it: for each of the two string-literal
  patterns and for each of the three method-call patterns, the list that \<^verbatim>\<open>re.findall\<close>
  returns on the line. A file is its path relative to the project and its lines, \<open>None\<close>
  when opening or reading raises.
\<close>

record scanned_line =
  string_matches :: "string list list"
  qtlucide_matches :: "string list list"

record source_file =
  rel_path :: string
  file_lines :: "scanned_line list option"

definition scan_file_for_icons :: "source_file \<Rightarrow> (string \<times> nat) list" where
  "scan_file_for_icons f =
     (case file_lines f of
        None \<Rightarrow> []
      | Some lines \<Rightarrow>
          concat (map (\<lambda>(line_num, line).
              concat (map (\<lambda>matches. map (\<lambda>m. (m, line_num)) (filter looks_like_icon_name matches))
                        (string_matches line))
              @ concat (map (\<lambda>matches. map (\<lambda>m. (m, line_num)) matches) (qtlucide_matches line)))
            (enumerate 1 lines)))"

subsection \<open>\<^verbatim>\<open>validate_icon_usage.py\<close>: the validator\<close>

text \<open>
  \<^verbatim>\<open>available_icons\<close> is a Python set; it is held as the list of its elements in the
  order in which the process iterates over it.
\<close>

record validator =
  available_icons :: "string list"
  icon_usage :: "(string \<times> (string \<times> nat) list) list"
  invalid_icons :: "(string \<times> (string \<times> nat) list) list"

text \<open>
  \<^verbatim>\<open>scan_directory\<close>: \<open>directory\<close> lists the regular files with one of the five C++
  extensions in the order of the two loops.
\<close>

definition scan_directory :: "source_file list \<Rightarrow> validator \<Rightarrow> validator" where
  "scan_directory directory v =
     fold (\<lambda>file_path v.
             let usages = scan_file_for_icons file_path in
             if usages \<noteq> [] then
               fold (\<lambda>(icon_name, line_num) v.
                       v\<lparr>icon_usage :=
                           index_append icon_name (rel_path file_path, line_num) (icon_usage v)\<rparr>)
                 usages v
             else v)
       directory v"

definition validate_usage :: "validator \<Rightarrow> bool \<times> validator" where
  "validate_usage v =
     fold (\<lambda>(icon_name, usages) (all_valid, v).
             if icon_name \<notin> set (available_icons v)
             then (False, v\<lparr>invalid_icons := AList.update icon_name usages (invalid_icons v)\<rparr>)
             else (all_valid, v))
       (icon_usage v) (True, v)"

text \<open>
  \<^verbatim>\<open>_words_similarity\<close> divides two integers as floats and the caller compares the
  quotient with \<^verbatim>\<open>0.5\<close>. Both integers are numbers of words of a name; the float quotient
  of two such integers is the rational quotient rounded to the nearest float, rounding
  is monotone and \<^verbatim>\<open>0.5\<close> is a float, and a quotient above one half is at least
  \<open>1/2 + 1/(2u)\<close>, which no rounding takes down to \<^verbatim>\<open>0.5\<close>. The comparison is therefore
  the comparison of the rational quotient.
\<close>

definition words_similarity :: "string \<Rightarrow> string \<Rightarrow> rat" where
  "words_similarity name1 name2 =
     (let words1 = set (split_on CHR ''-'' name1);
          words2 = set (split_on CHR ''-'' name2)
      in if words1 = {} \<or> words2 = {} then 0
         else of_nat (card (words1 \<inter> words2)) / of_nat (card (words1 \<union> words2)))"

definition suggest_corrections :: "validator \<Rightarrow> string \<Rightarrow> string list" where
  "suggest_corrections v invalid_icon =
     take 5 (fold (\<lambda>available suggestions.
                     if str_in invalid_icon available \<or> str_in available invalid_icon
                     then suggestions @ [available]
                     else if words_similarity invalid_icon available > 1 / 2
                     then suggestions @ [available]
                     else suggestions)
               (available_icons v) [])"

subsection \<open>\<^verbatim>\<open>validate_icon_usage.py\<close>: loading the names and running\<close>

text \<open>
  What \<^verbatim>\<open>load_available_icons\<close> finds in the project. Each of the three sources is absent
  (\<open>None\<close>) or present; a present source yields \<open>None\<close> when reading it raises. The strings
  header yields the names that the entry pattern finds, the SVG directory the stems of
  its files. The metadata file is a JSON object, of which the loader takes the top-level
  keys, or a JSON list, of which it takes the \<^verbatim>\<open>name\<close> of every item that has one, or
  another JSON value, which leaves the set empty.
\<close>

datatype metadata_json = MetaDict "string list" | MetaList "string option list" | MetaOther

record project =
  strings_header :: "string list option option"
  metadata_file :: "metadata_json option option"
  svg_files :: "string list option option"
  examples_dir :: "source_file list option"
  tests_dir :: "source_file list option"

text \<open>
  Each loader stores \<^verbatim>\<open>set(...)\<close> of the names it read; \<open>list_set\<close> is the iteration order of
  the process, as for the tags above.
\<close>

definition load_from_metadata :: "(string list \<Rightarrow> string list) \<Rightarrow> metadata_json \<Rightarrow> string list" where
  "load_from_metadata list_set metadata =
     (case metadata of
        MetaDict top_keys \<Rightarrow> list_set top_keys
      | MetaList items \<Rightarrow>
          list_set (concat (map (\<lambda>item. case item of None \<Rightarrow> [] | Some n \<Rightarrow> [n]) items))
      | MetaOther \<Rightarrow> [])"

definition load_available_icons ::
    "(string list \<Rightarrow> string list) \<Rightarrow> project \<Rightarrow> bool \<times> string list" where
  "load_available_icons list_set p =
     (case strings_header p of
        Some r \<Rightarrow> (case r of None \<Rightarrow> (False, []) | Some matches \<Rightarrow> (True, list_set matches))
      | None \<Rightarrow>
         (case metadata_file p of
            Some r \<Rightarrow>
              (case r of
                 None \<Rightarrow> (False, [])
               | Some metadata \<Rightarrow> (True, load_from_metadata list_set metadata))
          | None \<Rightarrow>
             (case svg_files p of
                Some r \<Rightarrow> (case r of None \<Rightarrow> (False, []) | Some stems \<Rightarrow> (True, list_set stems))
              | None \<Rightarrow> (False, []))))"

definition run_validation :: "(string list \<Rightarrow> string list) \<Rightarrow> project \<Rightarrow> bool \<times> validator" where
  "run_validation list_set p =
     (let v = \<lparr>available_icons = [], icon_usage = [], invalid_icons = []\<rparr> in
      case load_available_icons list_set p of
        (False, names) \<Rightarrow> (False, v\<lparr>available_icons := names\<rparr>)
      | (True, names) \<Rightarrow>
          (let v = v\<lparr>available_icons := names\<rparr>;
               v = (case examples_dir p of None \<Rightarrow> v | Some directory \<Rightarrow> scan_directory directory v);
               v = (case tests_dir p of None \<Rightarrow> v | Some directory \<Rightarrow> scan_directory directory v)
           in validate_usage v))"

text \<open>
  \<^verbatim>\<open>main\<close> of the validator: the exit status. \<open>None\<close> stands for a call without the
  project argument.
\<close>

definition validator_main :: "(string list \<Rightarrow> string list) \<Rightarrow> project option \<Rightarrow> nat" where
  "validator_main list_set arg =
     (case arg of
        None \<Rightarrow> 1
      | Some p \<Rightarrow> if fst (run_validation list_set p) then 0 else 1)"

text \<open>The candidates of a run: the names of all usages found in the two directories.\<close>

definition scanned_candidates :: "project \<Rightarrow> string list" where
  "scanned_candidates p =
     map fst (concat (map scan_file_for_icons
        ((case examples_dir p of None \<Rightarrow> [] | Some directory \<Rightarrow> directory)
         @ (case tests_dir p of None \<Rightarrow> [] | Some directory \<Rightarrow> directory))))"

subsection \<open>\<^verbatim>\<open>check_example_icons.py\<close>: \<^verbatim>\<open>suggest_similar_icons\<close>\<close>

text \<open>The set \<^verbatim>\<open>available_icons\<close> is the list \<open>available\<close> of its elements in iteration order.\<close>

definition common_mappings :: "(string \<times> string list) list" where
  "common_mappings =
    [(''edit'', [''pencil'', ''pen'', ''square-pen'']),
     (''home'', [''house'', ''house-plus'']),
     (''delete'', [''trash'', ''trash-2'']),
     (''remove'', [''x'', ''minus'', ''trash'']),
     (''add'', [''plus'', ''plus-circle'']),
     (''close'', [''x'', ''x-circle'']),
     (''options'', [''settings'', ''cog'']),
     (''config'', [''settings'', ''cog'']),
     (''preferences'', [''settings'', ''sliders-horizontal''])]"

definition suggest_similar_icons :: "string \<Rightarrow> string list \<Rightarrow> string list" where
  "suggest_similar_icons invalid_icon available =
     (let suggestions = [];
          suggestions =
            (case map_of common_mappings invalid_icon of
               None \<Rightarrow> suggestions
             | Some mapped \<Rightarrow> suggestions @ filter (\<lambda>icon. icon \<in> set available) mapped);
          suggestions =
            fold (\<lambda>icon suggestions.
                    if str_in invalid_icon icon \<or> str_in icon invalid_icon
                    then (if icon \<notin> set suggestions then suggestions @ [icon] else suggestions)
                    else suggestions)
              available suggestions;
          invalid_words = set (split_on CHR ''-'' invalid_icon);
          suggestions =
            fold (\<lambda>icon suggestions.
                    let icon_words = set (split_on CHR ''-'' icon) in
                    if invalid_words \<inter> icon_words \<noteq> {}
                    then (if icon \<notin> set suggestions then suggestions @ [icon] else suggestions)
                    else suggestions)
              available suggestions
      in take 5 suggestions)"

text \<open>
  The three groups of suggestions, to state their order: the synonyms of the table that
  are available, in table order; the available names related by containment that are
  not in the first group; the available names that share a hyphen-separated word and are
  in neither group.
\<close>

definition synonym_stage :: "string \<Rightarrow> string list \<Rightarrow> string list" where
  "synonym_stage invalid_icon available =
     (case map_of common_mappings invalid_icon of
        None \<Rightarrow> []
      | Some mapped \<Rightarrow> filter (\<lambda>icon. icon \<in> set available) mapped)"

definition substring_stage :: "string \<Rightarrow> string list \<Rightarrow> string list" where
  "substring_stage invalid_icon available =
     filter (\<lambda>icon. (str_in invalid_icon icon \<or> str_in icon invalid_icon)
                     \<and> icon \<notin> set (synonym_stage invalid_icon available)) available"

definition token_stage :: "string \<Rightarrow> string list \<Rightarrow> string list" where
  "token_stage invalid_icon available =
     filter (\<lambda>icon. set (split_on CHR ''-'' invalid_icon) \<inter> set (split_on CHR ''-'' icon) \<noteq> {}
                     \<and> icon \<notin> set (synonym_stage invalid_icon available
                                        @ substring_stage invalid_icon available)) available"

section \<open>The generators as programs\<close>

subsection \<open>Files\<close>

text \<open>
  The part of the file system that the generators write: the directories that exist and
  the text of the files. \<^verbatim>\<open>mkdir(parents=True, exist_ok=True)\<close> makes the directory exist
  (its missing ancestors with it, which are not listed); \<^verbatim>\<open>write_text\<close> replaces the text
  of the file.
\<close>

record file_system =
  dirs :: "string list"
  files :: "(string \<times> string) list"

definition mkdir :: "string \<Rightarrow> file_system \<Rightarrow> file_system" where
  "mkdir d fs = (if d \<in> set (dirs fs) then fs else fs\<lparr>dirs := dirs fs @ [d]\<rparr>)"

definition write_text :: "string \<Rightarrow> string \<Rightarrow> file_system \<Rightarrow> file_system" where
  "write_text path text fs = fs\<lparr>files := AList.update path text (files fs)\<rparr>"

text \<open>
  \<^verbatim>\<open>Path(d) / name\<close> and \<^verbatim>\<open>path.parent\<close>, for paths written with single slashes and
  without a slash at the end.
\<close>

definition path_join :: "string \<Rightarrow> string \<Rightarrow> string" where
  "path_join d file_name = d @ ''/'' @ file_name"

definition path_parent :: "string \<Rightarrow> string" where
  "path_parent path =
     (if CHR ''/'' \<in> set path then
        (let parent = rev (tl (dropWhile (\<lambda>c. c \<noteq> CHR ''/'') (rev path)))
         in if parent = [] then ''/'' else parent)
      else ''.'')"

subsection \<open>\<^verbatim>\<open>load_metadata\<close> of both generators\<close>

text \<open>
  The state of a metadata store at a path: no file, a file that \<^verbatim>\<open>json.load\<close> rejects, a
  JSON object without the key \<^verbatim>\<open>icons\<close>, or a store whose \<^verbatim>\<open>icons\<close> object has the given
  keys in the order of the file. \<^verbatim>\<open>open\<close> raises \<^verbatim>\<open>FileNotFoundError\<close> with the path,
  \<^verbatim>\<open>json.load\<close> raises \<^verbatim>\<open>JSONDecodeError\<close>, and \<^verbatim>\<open>data["icons"]\<close> raises \<^verbatim>\<open>KeyError\<close>.
\<close>

datatype metadata_store = StoreMissing | StoreMalformed | StoreNoIcons | Store "string list"

datatype py_error = FileNotFoundError string | JSONDecodeError string | KeyError string

definition load_metadata :: "(string \<Rightarrow> metadata_store) \<Rightarrow> string \<Rightarrow> py_error + string list" where
  "load_metadata store_at metadata_dir =
     (let icons_file = path_join metadata_dir ''icons.json'' in
      case store_at icons_file of
        StoreMissing \<Rightarrow> Inl (FileNotFoundError icons_file)
      | StoreMalformed \<Rightarrow> Inl (JSONDecodeError icons_file)
      | StoreNoIcons \<Rightarrow> Inl (KeyError ''icons'')
      | Store icon_keys \<Rightarrow> Inr icon_keys)"

subsection \<open>\<^verbatim>\<open>generate_headers.py\<close>: \<^verbatim>\<open>generate_headers\<close> and \<^verbatim>\<open>main\<close>\<close>

definition generate_headers :: "string \<Rightarrow> string list \<Rightarrow> file_system \<Rightarrow> file_system" where
  "generate_headers output_dir icon_keys fs =
     (let fs = mkdir output_dir fs;
          fs = write_text (path_join output_dir ''QtLucideEnums.h'')
                 (generate_enums_header icon_keys) fs;
          fs = write_text (path_join output_dir ''QtLucideStrings.h'')
                 (generate_strings_header icon_keys) fs
      in fs)"

text \<open>
  The outcome of a run: the exit status of the process, the exception that ended it (an
  exception that reaches the top level is printed with its traceback on standard error
  and the status is 1), and the file system it leaves.
\<close>

record run_result =
  exit_code :: nat
  uncaught :: "py_error option"
  result_fs :: file_system

text \<open>\<open>argv\<close> is \<^verbatim>\<open>sys.argv\<close>, the script name first.\<close>

definition headers_main ::
    "string list \<Rightarrow> (string \<Rightarrow> metadata_store) \<Rightarrow> file_system \<Rightarrow> run_result" where
  "headers_main argv store_at fs =
     (if length argv \<noteq> 3 then \<lparr>exit_code = 1, uncaught = None, result_fs = fs\<rparr>
      else
        let metadata_dir = argv ! 1; output_dir = argv ! 2 in
        case load_metadata store_at metadata_dir of
          Inl e \<Rightarrow> \<lparr>exit_code = 1, uncaught = Some e, result_fs = fs\<rparr>
        | Inr icon_keys \<Rightarrow>
            \<lparr>exit_code = 0, uncaught = None,
             result_fs = generate_headers output_dir icon_keys fs\<rparr>)"

subsection \<open>\<^verbatim>\<open>generate_qrc.py\<close>\<close>

definition qrc_template :: string where
  "qrc_template =
     ''<RCC>\<newline>'' @
     ''    <qresource prefix=\"/lucide\">\<newline>'' @
     ''{{FILE_ENTRIES}}\<newline>'' @
     ''    </qresource>\<newline>'' @
     ''</RCC>''"

definition generate_qrc :: "string \<Rightarrow> string list \<Rightarrow> file_system \<Rightarrow> file_system" where
  "generate_qrc output_file icon_keys fs =
     (let fs = mkdir (path_parent output_file) fs;
          qrc_content = qrc_template;
          file_entries = map (\<lambda>icon_name.
              ''        <file alias=\"'' @ icon_name @ ''\">'' @ (''svg/'' @ icon_name @ ''.svg'')
                @ ''</file>'') (sort icon_keys);
          files_content = join ''\<newline>'' file_entries;
          qrc_content = str_replace ''{{FILE_ENTRIES}}'' files_content qrc_content
      in write_text output_file qrc_content fs)"

definition qrc_main ::
    "string list \<Rightarrow> (string \<Rightarrow> metadata_store) \<Rightarrow> file_system \<Rightarrow> run_result" where
  "qrc_main argv store_at fs =
     (if length argv \<noteq> 4 then \<lparr>exit_code = 1, uncaught = None, result_fs = fs\<rparr>
      else
        let metadata_dir = argv ! 1; svg_dir = argv ! 2; output_file = argv ! 3 in
        case load_metadata store_at metadata_dir of
          Inl e \<Rightarrow> \<lparr>exit_code = 1, uncaught = Some e, result_fs = fs\<rparr>
        | Inr icon_keys \<Rightarrow>
            \<lparr>exit_code = 0, uncaught = None, result_fs = generate_qrc output_file icon_keys fs\<rparr>)"

section \<open>Theorems\<close>

subsection \<open>Character classes\<close>

lemma char_between:
  fixes c :: char
  assumes "of_char lo \<le> (of_char c :: nat)" "(of_char c :: nat) \<le> of_char hi"
  shows "c \<in> char_of ` {of_char lo .. (of_char hi :: nat)}"
proof -
  have "c = char_of (of_char c :: nat)" by simp
  with assms show ?thesis by (metis atLeastAtMost_iff imageI)
qed

lemma digits_enum: "map char_of [48 ..< (58::nat)] = ''0123456789''"
  by code_simp

lemma lowers_enum: "map char_of [97 ..< (123::nat)] = ''abcdefghijklmnopqrstuvwxyz''"
  by code_simp

lemma uppers_enum: "map char_of [65 ..< (91::nat)] = ''ABCDEFGHIJKLMNOPQRSTUVWXYZ''"
  by code_simp

lemma is_digit_iff: "is_digit c \<longleftrightarrow> c \<in> set ''0123456789''"
proof
  assume "is_digit c"
  then have "c \<in> char_of ` {of_char CHR ''0'' .. (of_char CHR ''9'' :: nat)}"
    by (intro char_between) (simp_all add: is_digit_def in_range_def less_eq_char_def)
  also have "{of_char CHR ''0'' .. (of_char CHR ''9'' :: nat)} = set [48 ..< 58]"
    by (simp only: set_upt) auto
  finally have "c \<in> set (map char_of [48 ..< (58::nat)])"
    by simp
  then show "c \<in> set ''0123456789''"
    by (simp only: digits_enum)
next
  assume "c \<in> set ''0123456789''"
  then show "is_digit c"
    by (auto simp: is_digit_def in_range_def less_eq_char_def)
qed

lemma is_lower_iff: "is_lower c \<longleftrightarrow> c \<in> set ''abcdefghijklmnopqrstuvwxyz''"
proof
  assume "is_lower c"
  then have "c \<in> char_of ` {of_char CHR ''a'' .. (of_char CHR ''z'' :: nat)}"
    by (intro char_between) (simp_all add: is_lower_def in_range_def less_eq_char_def)
  also have "{of_char CHR ''a'' .. (of_char CHR ''z'' :: nat)} = set [97 ..< 123]"
    by (simp only: set_upt) auto
  finally have "c \<in> set (map char_of [97 ..< (123::nat)])"
    by simp
  then show "c \<in> set ''abcdefghijklmnopqrstuvwxyz''"
    by (simp only: lowers_enum)
next
  assume "c \<in> set ''abcdefghijklmnopqrstuvwxyz''"
  then show "is_lower c"
    by (auto simp: is_lower_def in_range_def less_eq_char_def)
qed

lemma is_upper_iff: "is_upper c \<longleftrightarrow> c \<in> set ''ABCDEFGHIJKLMNOPQRSTUVWXYZ''"
proof
  assume "is_upper c"
  then have "c \<in> char_of ` {of_char CHR ''A'' .. (of_char CHR ''Z'' :: nat)}"
    by (intro char_between) (simp_all add: is_upper_def in_range_def less_eq_char_def)
  also have "{of_char CHR ''A'' .. (of_char CHR ''Z'' :: nat)} = set [65 ..< 91]"
    by (simp only: set_upt) auto
  finally have "c \<in> set (map char_of [65 ..< (91::nat)])"
    by simp
  then show "c \<in> set ''ABCDEFGHIJKLMNOPQRSTUVWXYZ''"
    by (simp only: uppers_enum)
next
  assume "c \<in> set ''ABCDEFGHIJKLMNOPQRSTUVWXYZ''"
  then show "is_upper c"
    by (auto simp: is_upper_def in_range_def less_eq_char_def)
qed

lemma is_word_char_iff: "is_word_char c \<longleftrightarrow> c \<in> spec_allowed"
  unfolding is_word_char_def spec_allowed_def is_digit_iff is_lower_iff is_upper_iff
  by blast

lemma re_sub_not_class_map:
  "re_sub_not_class cls [r] s = map (\<lambda>c. if cls c then c else r) s"
  by (induction s) (simp_all add: re_sub_not_class_def)

lemma re_sub_leading_digit_eq:
  "re_sub_leading_digit pre s = (if s \<noteq> [] \<and> is_digit (hd s) then pre @ s else s)"
  by (cases s) simp_all

subsection \<open>The symbol derivation\<close>

text \<open>
  Claim C6. For every icon name, \<^verbatim>\<open>_name_to_enum\<close> computes exactly the composition of
  the three steps of the specification, in that order: replace every character outside
  \<^verbatim>\<open>[A-Za-z0-9_]\<close> by \<^verbatim>\<open>_\<close>, then prefix \<^verbatim>\<open>Icon_\<close> if the result starts with a digit, then
  prefix \<^verbatim>\<open>icon_\<close> if the result is a reserved word.
\<close>

theorem name_to_enum_refines_spec: "name_to_enum n = spec_symbol n"
proof -
  have s1: "re_sub_not_class is_word_char ''_'' n = spec_step1 n"
    by (simp add: re_sub_not_class_map spec_step1_def is_word_char_iff)
  have s2: "re_sub_leading_digit ''Icon_'' s = spec_step2 s" for s
    by (simp only: re_sub_leading_digit_eq spec_step2_def is_digit_iff)
  show ?thesis
    by (simp only: name_to_enum_def Let_def s1 s2 spec_step3_def spec_symbol_def)
qed

theorem name_to_enum_refines_spec_witness:
  "name_to_enum ''arrow-left'' = ''arrow_left''
   \<and> name_to_enum ''3d-box'' = ''Icon_3d_box''
   \<and> name_to_enum ''delete'' = ''icon_delete''
   \<and> spec_symbol ''3d-box'' = ''Icon_3d_box''"
  using name_to_enum_refines_spec [of "''arrow-left''"]
    name_to_enum_refines_spec [of "''3d-box''"]
    name_to_enum_refines_spec [of "''delete''"]
  by (simp add: spec_symbol_def spec_step1_def spec_step2_def spec_step3_def spec_allowed_def
      cpp_keywords_def)

subsection \<open>String replacement and the header texts\<close>

lemma enum_header_template_split:
  "enum_header_template = enum_pre @ ''{{ENUM_VALUES}}'' @ enum_mid @ ''{{ICON_COUNT}}'' @ enum_post"
  by (simp add: enum_pre_def enum_mid_def enum_post_def enum_header_template_def)

lemma strings_header_template_split:
  "strings_header_template = strings_pre @ ''{{STRING_MAPPINGS}}'' @ strings_post"
  by (simp add: strings_pre_def strings_post_def strings_header_template_def)

lemma str_replace_Nil: "old \<noteq> [] \<Longrightarrow> str_replace old new [] = []"
  by (simp add: str_replace.simps)

lemma str_replace_skip:
  "old \<noteq> [] \<Longrightarrow> \<not> prefix old (c # s) \<Longrightarrow> str_replace old new (c # s) = c # str_replace old new s"
  by (subst str_replace.simps) simp

lemma str_replace_hit:
  "old \<noteq> [] \<Longrightarrow> str_replace old new (old @ s) = new @ str_replace old new s"
  by (subst str_replace.simps) simp

lemma str_replace_pass:
  assumes "old = a # b # old'" and "\<not> str_in [a, b] xs" and "xs = [] \<or> last xs \<noteq> a"
  shows "str_replace old new (xs @ ys) = xs @ str_replace old new ys"
  using assms(2,3)
proof (induction xs)
  case Nil
  then show ?case by simp
next
  case (Cons x xs)
  have np: "\<not> prefix old (x # xs @ ys)"
  proof
    assume p: "prefix old (x # xs @ ys)"
    then have xa: "x = a" and pb: "prefix (b # old') (xs @ ys)"
      by (simp_all add: assms(1))
    show False
    proof (cases xs)
      case Nil
      with Cons.prems(2) xa show False by simp
    next
      case (Cons y zs)
      with pb have "y = b" by simp
      with Cons xa Cons.prems(1) show False by simp
    qed
  qed
  have "\<not> str_in [a, b] xs" using Cons.prems(1) by simp
  moreover have "xs = [] \<or> last xs \<noteq> a" using Cons.prems(2) by (cases xs) auto
  ultimately have "str_replace old new (xs @ ys) = xs @ str_replace old new ys"
    by (rule Cons.IH)
  with np show ?case
    by (simp add: str_replace_skip assms(1))
qed

lemma str_in_absent: "a \<notin> set xs \<Longrightarrow> \<not> str_in (a # bs) xs"
  by (induction xs) auto

lemma str_replace_pass_free:
  assumes "old = a # b # old'" and "a \<notin> set xs"
  shows "str_replace old new (xs @ ys) = xs @ str_replace old new ys"
proof (rule str_replace_pass [OF assms(1)])
  show "\<not> str_in [a, b] xs" using assms(2) by (rule str_in_absent)
  show "xs = [] \<or> last xs \<noteq> a" using assms(2) by (cases xs rule: rev_cases) auto
qed

lemma enum_pre_ok: "\<not> str_in ''{{'' enum_pre \<and> last enum_pre \<noteq> CHR ''{''"
  by (simp add: enum_pre_def enum_header_template_def)

lemma enum_mid_ok: "\<not> str_in ''{{'' enum_mid \<and> last enum_mid \<noteq> CHR ''{''"
  by (simp add: enum_mid_def enum_header_template_def)

lemma enum_post_ok: "\<not> str_in ''{{'' enum_post \<and> last enum_post \<noteq> CHR ''{''"
  by (simp add: enum_post_def enum_header_template_def)

lemma strings_pre_ok: "\<not> str_in ''{{'' strings_pre \<and> last strings_pre \<noteq> CHR ''{''"
  by (simp add: strings_pre_def strings_header_template_def)

lemma strings_post_ok: "\<not> str_in ''{{'' strings_post \<and> last strings_post \<noteq> CHR ''{''"
  by (simp add: strings_post_def strings_header_template_def)

lemma is_word_char_name_to_enum: "c \<in> set (name_to_enum n) \<Longrightarrow> is_word_char c"
proof -
  have w: "\<forall>c\<in>set ''Icon_''. is_word_char c" "\<forall>c\<in>set ''icon_''. is_word_char c"
    by (simp_all add: is_word_char_iff spec_allowed_def)
  have u: "is_word_char CHR ''_''" by (simp add: is_word_char_def)
  have s1: "\<forall>c\<in>set (re_sub_not_class is_word_char ''_'' n). is_word_char c"
    by (auto simp: re_sub_not_class_map u)
  have s2: "\<forall>c\<in>set (re_sub_leading_digit ''Icon_'' s). is_word_char c"
    if "\<forall>c\<in>set s. is_word_char c" for s
    using that w(1) by (cases s) auto
  assume "c \<in> set (name_to_enum n)"
  then show ?thesis
    using s2 [OF s1] w(2) by (auto simp: name_to_enum_def Let_def split: if_splits)
qed

lemma digit_char_is_digit: "d < 10 \<Longrightarrow> digit_char d \<in> set ''0123456789''"
proof -
  assume "d < 10"
  then have "d = 0 \<or> d = 1 \<or> d = 2 \<or> d = 3 \<or> d = 4 \<or> d = 5 \<or> d = 6 \<or> d = 7 \<or> d = 8 \<or> d = 9"
    by arith
  then show ?thesis
    by (elim disjE) (simp_all add: digit_char_def)
qed

lemma str_nat_small: "n < 10 \<Longrightarrow> str_nat n = [digit_char n]"
  by (subst str_nat.simps) simp

lemma str_nat_large: "\<not> n < 10 \<Longrightarrow> str_nat n = str_nat (n div 10) @ [digit_char (n mod 10)]"
  by (subst str_nat.simps) simp

lemma str_nat_digits: "set (str_nat n) \<subseteq> set ''0123456789''"
proof (induction n rule: str_nat.induct)
  case (1 n)
  show ?case
  proof (cases "n < 10")
    case True
    have "set [digit_char n] \<subseteq> set ''0123456789''"
      using digit_char_is_digit [OF True] by simp
    then show ?thesis
      by (simp only: str_nat_small [OF True])
  next
    case False
    have "digit_char (n mod 10) \<in> set ''0123456789''"
      by (rule digit_char_is_digit) simp
    then have "set (str_nat (n div 10) @ [digit_char (n mod 10)]) \<subseteq> set ''0123456789''"
      using "1.IH" [OF False] by simp
    then show ?thesis
      by (simp only: str_nat_large [OF False])
  qed
qed

lemma set_join: "set (join sep xs) \<subseteq> set sep \<union> (\<Union>x\<in>set xs. set x)"
  by (induction sep xs rule: join.induct) auto

lemma brace_not_in_enum_values: "l \<in> set (enum_values keys) \<Longrightarrow> CHR ''{'' \<notin> set l"
proof -
  have nw: "\<not> is_word_char CHR ''{''"
    by (simp add: is_word_char_iff spec_allowed_def)
  assume "l \<in> set (enum_values keys)"
  then obtain i n where l: "l = ''    '' @ name_to_enum n @ '' = '' @ str_nat i"
    unfolding enum_values_def by auto
  have a: "CHR ''{'' \<notin> set (name_to_enum n)"
    using nw is_word_char_name_to_enum by blast
  have "CHR ''{'' \<notin> set ''0123456789''"
    by simp
  then have b: "CHR ''{'' \<notin> set (str_nat i)"
    using str_nat_digits [of i] by blast
  show ?thesis
    unfolding l using a b by simp
qed

lemma brace_not_in_enum_content: "CHR ''{'' \<notin> set (join '',\<newline>'' (enum_values keys))"
proof
  assume "CHR ''{'' \<in> set (join '',\<newline>'' (enum_values keys))"
  then have "CHR ''{'' \<in> set '',\<newline>'' \<union> (\<Union>x\<in>set (enum_values keys). set x)"
    using set_join by blast
  then obtain l where "l \<in> set (enum_values keys)" "CHR ''{'' \<in> set l"
    by auto
  then show False
    using brace_not_in_enum_values by blast
qed

lemma generate_enums_header_text:
  "generate_enums_header keys =
     enum_pre @ join '',\<newline>'' (enum_values keys) @ enum_mid @ str_nat (length keys) @ enum_post"
proof -
  let ?E = "join '',\<newline>'' (enum_values keys)"
  let ?N = "str_nat (length keys)"
  let ?o1 = "''{{ENUM_VALUES}}''" and ?o2 = "''{{ICON_COUNT}}''"
  have o1: "?o1 = CHR ''{'' # CHR ''{'' # ''ENUM_VALUES}}''" by simp
  have o2: "?o2 = CHR ''{'' # CHR ''{'' # ''ICON_COUNT}}''" by simp
  have r1: "str_replace ?o1 ?E enum_header_template = enum_pre @ ?E @ enum_mid @ ?o2 @ enum_post"
  proof -
    have "str_replace ?o1 ?E enum_header_template
        = enum_pre @ str_replace ?o1 ?E (?o1 @ enum_mid @ ?o2 @ enum_post)"
      unfolding enum_header_template_split
      using enum_pre_ok by (intro str_replace_pass [OF o1]) simp_all
    also have "str_replace ?o1 ?E (?o1 @ enum_mid @ ?o2 @ enum_post)
        = ?E @ str_replace ?o1 ?E (enum_mid @ ?o2 @ enum_post)"
      by (rule str_replace_hit) simp
    also have "str_replace ?o1 ?E (enum_mid @ ?o2 @ enum_post)
        = enum_mid @ str_replace ?o1 ?E (?o2 @ enum_post)"
      using enum_mid_ok by (intro str_replace_pass [OF o1]) simp_all
    also have "str_replace ?o1 ?E (?o2 @ enum_post) = ?o2 @ str_replace ?o1 ?E (enum_post @ [])"
      using str_replace_pass_free [OF o1, of "''ICON_COUNT}}''" ?E enum_post]
      by (simp add: str_replace_skip)
    also have "str_replace ?o1 ?E (enum_post @ []) = enum_post @ str_replace ?o1 ?E []"
      using enum_post_ok by (intro str_replace_pass [OF o1]) simp_all
    finally show ?thesis by (simp add: str_replace_Nil)
  qed
  have r2: "str_replace ?o2 ?N (enum_pre @ ?E @ enum_mid @ ?o2 @ enum_post)
      = enum_pre @ ?E @ enum_mid @ ?N @ enum_post"
  proof -
    have "str_replace ?o2 ?N (enum_pre @ ?E @ enum_mid @ ?o2 @ enum_post)
        = enum_pre @ str_replace ?o2 ?N (?E @ enum_mid @ ?o2 @ enum_post)"
      using enum_pre_ok by (intro str_replace_pass [OF o2]) simp_all
    also have "str_replace ?o2 ?N (?E @ enum_mid @ ?o2 @ enum_post)
        = ?E @ str_replace ?o2 ?N (enum_mid @ ?o2 @ enum_post)"
      using brace_not_in_enum_content by (intro str_replace_pass_free [OF o2])
    also have "str_replace ?o2 ?N (enum_mid @ ?o2 @ enum_post)
        = enum_mid @ str_replace ?o2 ?N (?o2 @ enum_post)"
      using enum_mid_ok by (intro str_replace_pass [OF o2]) simp_all
    also have "str_replace ?o2 ?N (?o2 @ enum_post) = ?N @ str_replace ?o2 ?N (enum_post @ [])"
      using str_replace_hit [of ?o2 ?N enum_post] by simp
    also have "str_replace ?o2 ?N (enum_post @ []) = enum_post @ str_replace ?o2 ?N []"
      using enum_post_ok by (intro str_replace_pass [OF o2]) simp_all
    finally show ?thesis by (simp add: str_replace_Nil)
  qed
  show ?thesis
    unfolding generate_enums_header_def Let_def r1 r2 ..
qed

lemma generate_strings_header_text:
  "generate_strings_header keys =
     strings_pre @ join '',\<newline>'' (string_entries keys) @ strings_post"
proof -
  let ?E = "join '',\<newline>'' (string_entries keys)"
  let ?o = "''{{STRING_MAPPINGS}}''"
  have o: "?o = CHR ''{'' # CHR ''{'' # ''STRING_MAPPINGS}}''" by simp
  have "str_replace ?o ?E strings_header_template
      = strings_pre @ str_replace ?o ?E (?o @ strings_post)"
    unfolding strings_header_template_split
    using strings_pre_ok by (intro str_replace_pass [OF o]) simp_all
  also have "str_replace ?o ?E (?o @ strings_post) = ?E @ str_replace ?o ?E (strings_post @ [])"
    using str_replace_hit [of ?o ?E strings_post] by simp
  also have "str_replace ?o ?E (strings_post @ []) = strings_post @ str_replace ?o ?E []"
    using strings_post_ok by (intro str_replace_pass [OF o]) simp_all
  finally show ?thesis
    by (simp add: generate_strings_header_def Let_def str_replace_Nil)
qed

subsection \<open>Ordinals of the enumeration\<close>

lemma length_enum_values: "length (enum_values keys) = length keys"
  by (simp add: enum_values_def)

lemma nth_enum_values:
  assumes "i < length keys"
  shows "enum_values keys ! i = ''    '' @ name_to_enum (sort keys ! i) @ '' = '' @ str_nat i"
  using assms by (simp add: enum_values_def nth_enumerate_eq)

lemma sorted_position:
  fixes xs :: "'a::linorder list"
  assumes "sorted xs" "distinct xs" "i < length xs"
  shows "card {m \<in> set xs. m < xs ! i} = i"
proof -
  have "{m \<in> set xs. m < xs ! i} = set (take i xs)"
  proof (intro set_eqI iffI)
    fix m assume "m \<in> {m \<in> set xs. m < xs ! i}"
    then obtain j where j: "j < length xs" "xs ! j = m" and lt: "m < xs ! i"
      by (auto simp: in_set_conv_nth)
    have "j < i"
    proof (rule ccontr)
      assume "\<not> j < i"
      then have "i \<le> j" by simp
      with assms(1) j(1) have "xs ! i \<le> xs ! j" by (simp add: sorted_nth_mono)
      with lt j(2) show False by simp
    qed
    with j assms(3) show "m \<in> set (take i xs)"
      by (auto simp: in_set_conv_nth)
  next
    fix m assume "m \<in> set (take i xs)"
    then obtain j where j: "j < i" "xs ! j = m"
      using assms(3) by (auto simp: in_set_conv_nth)
    have "xs ! j \<le> xs ! i"
      using assms(1,3) j(1) by (intro sorted_nth_mono) simp_all
    moreover have "xs ! j \<noteq> xs ! i"
      using assms(2,3) j(1) by (simp add: nth_eq_iff_index_eq)
    ultimately show "m \<in> {m \<in> set xs. m < xs ! i}"
      using j assms(3) by auto
  qed
  moreover have "card (set (take i xs)) = i"
    using assms(2,3) by (simp add: distinct_card)
  ultimately show ?thesis by simp
qed

lemma sort_append_last:
  fixes new :: "'a::linorder"
  assumes "\<forall>m\<in>set keys. m < new"
  shows "sort (keys @ [new]) = sort keys @ [new]"
proof -
  have "sorted (sort keys @ [new])"
    using assms by (auto simp: sorted_append intro: less_imp_le)
  moreover have "mset (sort keys @ [new]) = mset (keys @ [new])"
    by simp
  ultimately show ?thesis
    by (metis properties_for_sort)
qed

lemma enum_values_append_last:
  assumes "\<forall>m\<in>set keys. m < new"
  shows "enum_values (keys @ [new]) =
           enum_values keys @ [''    '' @ name_to_enum new @ '' = '' @ str_nat (length keys)]"
  by (simp add: enum_values_def sort_append_last [OF assms] enumerate_append_eq)

lemma length_string_entries: "length (string_entries keys) = length keys"
  by (simp add: string_entries_def)

lemma scenario_sorted:
  "sort [''arrow-left'', ''arrow-right'', ''zebra''] = [''arrow-left'', ''arrow-right'', ''zebra'']"
  by simp

lemma scenario_lookup_table:
  "ICON_TO_STRING_MAP [''arrow-left'', ''arrow-right'', ''zebra''] =
     Inr [(0, ''arrow-left''), (1, ''arrow-right''), (2, ''zebra'')]"
  by code_simp

lemma scenario_enum_values:
  "enum_values [''arrow-left'', ''arrow-right'', ''zebra''] =
     [''    arrow_left = 0'', ''    arrow_right = 1'', ''    zebra = 2'']"
  by code_simp

lemma enum_mid_post_text:
  "suffix ''constexpr int ICON_COUNT = '' enum_mid \<and> prefix '';'' enum_post"
proof -
  have "enum_mid = take 55 enum_mid @ ''constexpr int ICON_COUNT = ''"
    by (simp add: enum_mid_def enum_header_template_def)
  then have "suffix ''constexpr int ICON_COUNT = '' enum_mid"
    by (rule suffixI)
  moreover have "prefix '';'' enum_post"
    by (simp add: enum_post_def enum_header_template_def)
  ultimately show ?thesis ..
qed

text \<open>
  Claim C5. Line \<open>i\<close> of the enumeration body is the symbol of the \<open>i\<close>-th smallest name
  with the ordinal \<open>i\<close> in decimal, and exactly \<open>i\<close> names of the catalog are smaller than
  that name; there is one line per name; the header text carries the number of names
  after \<^verbatim>\<open>constexpr int ICON_COUNT = \<close>; for the names \<^verbatim>\<open>arrow-left\<close>, \<^verbatim>\<open>arrow-right\<close>,
  \<^verbatim>\<open>zebra\<close> the ordinals are 0, 1, 2 in that order and the lookup table has three entries;
  and a new name greater than every catalog name only adds a last line, leaving every
  other line (symbol and ordinal) as it was.
\<close>

theorem enum_ordinals_sorted_position:
  assumes "distinct keys"
  shows "length (enum_values keys) = length keys
    \<and> (\<forall>i<length keys.
          enum_values keys ! i = ''    '' @ name_to_enum (sort keys ! i) @ '' = '' @ str_nat i
          \<and> sort keys ! i \<in> set keys
          \<and> card {m \<in> set keys. m < sort keys ! i} = i)
    \<and> (\<forall>n\<in>set keys. \<exists>i<length keys. sort keys ! i = n)
    \<and> generate_enums_header keys =
          enum_pre @ join '',\<newline>'' (enum_values keys) @ enum_mid @ str_nat (length keys) @ enum_post
    \<and> suffix ''constexpr int ICON_COUNT = '' enum_mid \<and> prefix '';'' enum_post
    \<and> enum_values [''arrow-left'', ''arrow-right'', ''zebra''] =
          [''    arrow_left = 0'', ''    arrow_right = 1'', ''    zebra = 2'']
    \<and> str_nat (length [''arrow-left'', ''arrow-right'', ''zebra'']) = ''3''
    \<and> length (string_entries [''arrow-left'', ''arrow-right'', ''zebra'']) = 3
    \<and> ICON_TO_STRING_MAP [''arrow-left'', ''arrow-right'', ''zebra''] =
          Inr [(0, ''arrow-left''), (1, ''arrow-right''), (2, ''zebra'')]
    \<and> ((\<forall>m\<in>set keys. m < new) \<longrightarrow>
          enum_values (keys @ [new]) =
            enum_values keys @ [''    '' @ name_to_enum new @ '' = '' @ str_nat (length keys)])"
proof -
  have pos: "enum_values keys ! i = ''    '' @ name_to_enum (sort keys ! i) @ '' = '' @ str_nat i
      \<and> sort keys ! i \<in> set keys \<and> card {m \<in> set keys. m < sort keys ! i} = i"
    if i: "i < length keys" for i
  proof -
    have "card {m \<in> set (sort keys). m < sort keys ! i} = i"
      using assms i by (intro sorted_position) simp_all
    moreover have "sort keys ! i \<in> set (sort keys)"
      using i by (intro nth_mem) simp
    ultimately show ?thesis
      using i by (simp add: nth_enum_values)
  qed
  have ex: "\<exists>i<length keys. sort keys ! i = n" if "n \<in> set keys" for n
  proof -
    from that have "n \<in> set (sort keys)" by simp
    then show ?thesis unfolding in_set_conv_nth by simp
  qed
  have three: "str_nat (length [''arrow-left'', ''arrow-right'', ''zebra'']) = ''3''"
    by (simp add: str_nat_small digit_char_def)
  show ?thesis
  proof (intro conjI)
    show "length (enum_values keys) = length keys"
      by (rule length_enum_values)
    show "\<forall>i<length keys.
          enum_values keys ! i = ''    '' @ name_to_enum (sort keys ! i) @ '' = '' @ str_nat i
          \<and> sort keys ! i \<in> set keys
          \<and> card {m \<in> set keys. m < sort keys ! i} = i"
      using pos by blast
    show "\<forall>n\<in>set keys. \<exists>i<length keys. sort keys ! i = n"
      using ex by blast
    show "generate_enums_header keys =
          enum_pre @ join '',\<newline>'' (enum_values keys) @ enum_mid @ str_nat (length keys) @ enum_post"
      by (rule generate_enums_header_text)
    show "suffix ''constexpr int ICON_COUNT = '' enum_mid" "prefix '';'' enum_post"
      using enum_mid_post_text by blast+
    show "enum_values [''arrow-left'', ''arrow-right'', ''zebra''] =
          [''    arrow_left = 0'', ''    arrow_right = 1'', ''    zebra = 2'']"
      by (rule scenario_enum_values)
    show "str_nat (length [''arrow-left'', ''arrow-right'', ''zebra'']) = ''3''"
      by (rule three)
    show "length (string_entries [''arrow-left'', ''arrow-right'', ''zebra'']) = 3"
      by (simp add: length_string_entries)
    show "ICON_TO_STRING_MAP [''arrow-left'', ''arrow-right'', ''zebra''] =
          Inr [(0, ''arrow-left''), (1, ''arrow-right''), (2, ''zebra'')]"
      by (rule scenario_lookup_table)
    show "(\<forall>m\<in>set keys. m < new) \<longrightarrow>
          enum_values (keys @ [new]) =
            enum_values keys @ [''    '' @ name_to_enum new @ '' = '' @ str_nat (length keys)]"
      using enum_values_append_last by blast
  qed
qed

theorem enum_ordinals_sorted_position_witness:
  "distinct [''zebra'', ''arrow-right'', ''arrow-left'']
   \<and> ''zebra'' < ''zoom-in'' \<and> ''arrow-right'' < ''zoom-in'' \<and> ''arrow-left'' < ''zoom-in''
   \<and> enum_values [''zebra'', ''arrow-right'', ''arrow-left''] ! 1 = ''    arrow_right = 1''
   \<and> card {m \<in> set [''zebra'', ''arrow-right'', ''arrow-left'']. m < ''arrow-right''} = 1
   \<and> enum_values ([''zebra'', ''arrow-right'', ''arrow-left''] @ [''zoom-in'']) =
       [''    arrow_left = 0'', ''    arrow_right = 1'', ''    zebra = 2'', ''    zoom_in = 3'']"
proof -
  let ?keys = "[''zebra'', ''arrow-right'', ''arrow-left'']"
  have d: "distinct ?keys" by simp
  have lt: "\<forall>m\<in>set ?keys. m < ''zoom-in''" by simp
  have s: "sort ?keys ! 1 = ''arrow-right''" by simp
  have v: "enum_values ?keys = [''    arrow_left = 0'', ''    arrow_right = 1'', ''    zebra = 2'']"
    by code_simp
  have z: "''    '' @ name_to_enum ''zoom-in'' @ '' = '' @ str_nat (length ?keys) = ''    zoom_in = 3''"
    by code_simp
  note t = enum_ordinals_sorted_position [OF d, of "''zoom-in''"]
  have one: "(1::nat) < length ?keys" by simp
  from t have "\<forall>i<length ?keys. enum_values ?keys ! i
        = ''    '' @ name_to_enum (sort ?keys ! i) @ '' = '' @ str_nat i
      \<and> sort ?keys ! i \<in> set ?keys
      \<and> card {m \<in> set ?keys. m < sort ?keys ! i} = i"
    by blast
  from this [rule_format, OF one] have p: "enum_values ?keys ! 1 = ''    arrow_right = 1''"
      "card {m \<in> set ?keys. m < ''arrow-right''} = 1"
    unfolding s v by simp_all
  from t lt have "enum_values (?keys @ [''zoom-in'']) =
      enum_values ?keys @ [''    '' @ name_to_enum ''zoom-in'' @ '' = '' @ str_nat (length ?keys)]"
    by blast
  then have a: "enum_values (?keys @ [''zoom-in'']) =
       [''    arrow_left = 0'', ''    arrow_right = 1'', ''    zebra = 2'', ''    zoom_in = 3'']"
    unfolding v z by simp
  have lts: "''zebra'' < ''zoom-in''" "''arrow-right'' < ''zoom-in''" "''arrow-left'' < ''zoom-in''"
    by simp_all
  show ?thesis
    using d lts p a by blast
qed

subsection \<open>Reading the generated headers\<close>

lemma split_on_nonempty: "split_on c xs \<noteq> []"
  by (induction xs) (auto split: list.splits)

lemma split_on_append_sep: "split_on c (xs @ c # ys) = split_on c xs @ split_on c ys"
proof (induction xs)
  case Nil
  show ?case by simp
next
  case (Cons x xs)
  obtain w ws where w: "split_on c xs = w # ws"
    using split_on_nonempty [of c xs] by (cases "split_on c xs") auto
  show ?case
    by (simp add: Cons.IH w)
qed

lemma split_on_no_sep: "c \<notin> set xs \<Longrightarrow> split_on c xs = [xs]"
  by (induction xs) auto

lemma split_on_join:
  assumes "\<forall>l\<in>set ls. CHR 0x0A \<notin> set l"
  shows "split_on CHR 0x0A (join '',\<newline>'' ls) =
           (if ls = [] then [[]] else map (\<lambda>l. l @ '','') (butlast ls) @ [last ls])"
  using assms
proof (induction "'',\<newline>''" ls rule: join.induct)
  case 1
  show ?case by simp
next
  case (2 x)
  then show ?case by (simp add: split_on_no_sep)
next
  case (3 x y ys)
  have "join '',\<newline>'' (x # y # ys) = (x @ '','') @ CHR 0x0A # join '',\<newline>'' (y # ys)"
    by simp
  moreover have "split_on CHR 0x0A (x @ '','') = [x @ '','']"
    using "3.prems" by (intro split_on_no_sep) simp
  moreover have "split_on CHR 0x0A (join '',\<newline>'' (y # ys)) =
      map (\<lambda>l. l @ '','') (butlast (y # ys)) @ [last (y # ys)]"
    using "3.hyps" "3.prems" by simp
  ultimately show ?case
    by (simp only: split_on_append_sep) simp
qed

lemma body_lines_of_join:
  assumes "\<forall>l\<in>set ls. CHR 0x0A \<notin> set l \<and> l \<noteq> [] \<and> last l \<noteq> CHR '',''"
  shows "map strip_comma (filter (\<lambda>l. l \<noteq> []) (split_on CHR 0x0A (join '',\<newline>'' ls))) = ls"
proof (cases "ls = []")
  case True
  then show ?thesis by simp
next
  case False
  have nl: "\<forall>l\<in>set ls. CHR 0x0A \<notin> set l" using assms by blast
  have b: "\<forall>l\<in>set (butlast ls). l \<noteq> [] \<and> last l \<noteq> CHR '',''"
    using assms by (meson in_set_butlastD)
  have l: "last ls \<noteq> [] \<and> last (last ls) \<noteq> CHR '',''"
    using assms False by simp
  have "map strip_comma (filter (\<lambda>l. l \<noteq> []) (map (\<lambda>l. l @ '','') (butlast ls) @ [last ls]))
      = map strip_comma (map (\<lambda>l. l @ '','') (butlast ls)) @ [strip_comma (last ls)]"
    using l by (simp add: filter_map comp_def)
  also have "map strip_comma (map (\<lambda>l. l @ '','') (butlast ls)) = butlast ls"
    by (simp add: strip_comma_def comp_def)
  also have "strip_comma (last ls) = last ls"
    using l by (simp add: strip_comma_def)
  finally show ?thesis
    using False by (simp add: split_on_join [OF nl])
qed

lemma closing_not_in_body:
  assumes "\<forall>l\<in>set ls. CHR 0x0A \<notin> set l \<and> l \<noteq> [] \<and> hd l = CHR '' ''"
  shows "''};'' \<notin> set (split_on CHR 0x0A (join '',\<newline>'' ls))"
proof -
  have nl: "\<forall>l\<in>set ls. CHR 0x0A \<notin> set l" using assms by blast
  have h: "\<forall>l\<in>set ls. hd l \<noteq> CHR ''}'' \<and> l \<noteq> []" using assms by auto
  show ?thesis
  proof (cases "ls = []")
    case True
    then show ?thesis by simp
  next
    case False
    have "''};'' \<noteq> l @ '',''" if "l \<in> set (butlast ls)" for l
    proof -
      from that have "l \<in> set ls" by (rule in_set_butlastD)
      with h have "hd l \<noteq> CHR ''}''" "l \<noteq> []" by blast+
      then show ?thesis by (cases l) auto
    qed
    moreover have "''};'' \<noteq> last ls"
      using h False by (metis last_in_set list.sel(1))
    ultimately show ?thesis
      using False by (auto simp: split_on_join [OF nl])
  qed
qed

lemma dropWhile_upto: "x \<notin> set xs \<Longrightarrow> dropWhile (\<lambda>l. l \<noteq> x) (xs @ x # ys) = x # ys"
  by (induction xs) auto

lemma takeWhile_upto: "x \<notin> set xs \<Longrightarrow> takeWhile (\<lambda>l. l \<noteq> x) (xs @ x # ys) = xs"
  by (induction xs) auto

lemma block_lines_generated:
  assumes "split_on CHR 0x0A P = Ls @ [opening]" and "opening \<notin> set Ls"
    and "''};'' \<notin> set (split_on CHR 0x0A body)"
  shows "block_lines opening (P @ CHR 0x0A # body @ CHR 0x0A # ''};'' @ CHR 0x0A # R)
           = Some (split_on CHR 0x0A body)"
proof -
  have c: "split_on CHR 0x0A (''};'' @ CHR 0x0A # R) = ''};'' # split_on CHR 0x0A R"
    by (simp only: split_on_append_sep) simp
  have s: "split_on CHR 0x0A (P @ CHR 0x0A # body @ CHR 0x0A # ''};'' @ CHR 0x0A # R)
      = Ls @ opening # split_on CHR 0x0A body @ ''};'' # split_on CHR 0x0A R"
    by (simp only: split_on_append_sep c assms(1)) simp
  have d: "dropWhile (\<lambda>l. l \<noteq> opening) (Ls @ opening # X) = opening # X" for X
    using assms(2) by (rule dropWhile_upto)
  have t: "takeWhile (\<lambda>l. l \<noteq> ''};'') (split_on CHR 0x0A body @ ''};'' # Y) = split_on CHR 0x0A body" for Y
    using assms(3) by (rule takeWhile_upto)
  show ?thesis
    unfolding block_lines_def s d by (simp add: t)
qed

lemma those_map:
  assumes "\<forall>x\<in>set xs. f x = Some (g x)"
  shows "those (map f xs) = Some (map g xs)"
  using assms by (induction xs) simp_all


lemma enum_mid_lines: "take 4 enum_mid = CHR 0x0A # ''};'' @ [CHR 0x0A]"
  by (simp add: enum_mid_def enum_header_template_def)

lemma strings_post_lines: "take 4 strings_post = CHR 0x0A # ''};'' @ [CHR 0x0A]"
  by (simp add: strings_post_def strings_header_template_def)

lemma enum_pre_lines:
  "last enum_pre = CHR 0x0A
   \<and> last (split_on CHR 0x0A (butlast enum_pre)) = ''enum class Icons {''
   \<and> ''enum class Icons {'' \<notin> set (butlast (split_on CHR 0x0A (butlast enum_pre)))"
  by code_simp

lemma strings_pre_lines:
  "last strings_pre = CHR 0x0A
   \<and> last (split_on CHR 0x0A (butlast strings_pre))
       = ''static const QHash<Icons, QString> ICON_TO_STRING_MAP = {''
   \<and> ''static const QHash<Icons, QString> ICON_TO_STRING_MAP = {''
       \<notin> set (butlast (split_on CHR 0x0A (butlast strings_pre)))"
  by code_simp

section \<open>Metadata synthesis: theorems\<close>

subsection \<open>Substring tests\<close>

lemma str_in_iff: "str_in xs ys \<longleftrightarrow> (\<exists>ps ss. ys = ps @ xs @ ss)"
proof (induction ys)
  case Nil
  show ?case by auto
next
  case (Cons y ys)
  show ?case
  proof
    assume "str_in xs (y # ys)"
    then consider "prefix xs (y # ys)" | "str_in xs ys" by auto
    then show "\<exists>ps ss. y # ys = ps @ xs @ ss"
    proof cases
      case 1
      then obtain ss where "y # ys = xs @ ss" by (auto simp: prefix_def)
      then have "y # ys = [] @ xs @ ss" by simp
      then show ?thesis by blast
    next
      case 2
      with Cons.IH obtain ps ss where "ys = ps @ xs @ ss" by blast
      then have "y # ys = (y # ps) @ xs @ ss" by simp
      then show ?thesis by blast
    qed
  next
    assume "\<exists>ps ss. y # ys = ps @ xs @ ss"
    then obtain ps ss where e: "y # ys = ps @ xs @ ss" by blast
    show "str_in xs (y # ys)"
    proof (cases ps)
      case Nil
      with e have "prefix xs (y # ys)" by (simp add: prefix_def)
      then show ?thesis by simp
    next
      case (Cons p ps')
      with e have "ys = ps' @ xs @ ss" by simp
      with Cons.IH have "str_in xs ys" by blast
      then show ?thesis by simp
    qed
  qed
qed

lemma any_word_in_iff: "any_word_in words s \<longleftrightarrow> (\<exists>word\<in>set words. \<exists>ps ss. s = ps @ word @ ss)"
  by (simp add: any_word_in_def list_ex_iff str_in_iff)

subsection \<open>Categories\<close>

lemma categorize_fold:
  "fold (\<lambda>(category, keywords) cats. if P keywords then cats @ [category] else cats) items acc
     = acc @ map fst (filter (\<lambda>(category, keywords). P keywords) items)"
  by (induction items arbitrary: acc) (auto simp: case_prod_beta)

lemma categorize_icon_eq:
  "categorize_icon nm =
     (let cats = map fst (filter (\<lambda>(category, keywords). any_word_in keywords nm) category_keywords)
      in if cats = [] then [''general''] else cats)"
  by (simp add: categorize_icon_def categorize_fold Let_def)

lemma distinct_category_labels: "distinct (''general'' # map fst category_keywords)"
  by (simp add: category_keywords_def)

lemma categorize_icon_hits:
  "categorize_icon nm \<noteq> []
   \<and> distinct (categorize_icon nm)
   \<and> (\<forall>(category, keywords) \<in> set category_keywords.
         category \<in> set (categorize_icon nm) \<longleftrightarrow> any_word_in keywords nm)
   \<and> (''general'' \<in> set (categorize_icon nm)
         \<longleftrightarrow> (\<forall>(category, keywords) \<in> set category_keywords. \<not> any_word_in keywords nm))
   \<and> ((\<forall>(category, keywords) \<in> set category_keywords. \<not> any_word_in keywords nm)
         \<longrightarrow> categorize_icon nm = [''general''])"
proof -
  let ?hit = "\<lambda>(category, keywords). any_word_in keywords nm"
  let ?cats = "map fst (filter ?hit category_keywords)"
  have d: "distinct (''general'' # map fst category_keywords)"
    by (rule distinct_category_labels)
  then have dk: "distinct (map fst category_keywords)" and g: "''general'' \<notin> fst ` set category_keywords"
    by simp_all
  have dc: "distinct ?cats"
    using dk by (rule distinct_map_filter)
  have mem: "category \<in> set ?cats \<longleftrightarrow> any_word_in kws nm"
    if "(category, kws) \<in> set category_keywords" for category kws
  proof
    assume "category \<in> set ?cats"
    then obtain kws' where k: "(category, kws') \<in> set category_keywords" "any_word_in kws' nm"
      by auto
    from dk k(1) that have "kws' = kws"
      by (meson eq_key_imp_eq_value)
    with k(2) show "any_word_in kws nm" by simp
  next
    assume "any_word_in kws nm"
    with that show "category \<in> set ?cats" by force
  qed
  have gen: "''general'' \<notin> set ?cats"
    using g by force
  have empty: "?cats = [] \<longleftrightarrow> (\<forall>(category, keywords) \<in> set category_keywords. \<not> any_word_in keywords nm)"
    by (auto simp: filter_empty_conv)
  show ?thesis
  proof (cases "?cats = []")
    case True
    then have c: "categorize_icon nm = [''general'']"
      by (simp add: categorize_icon_eq)
    have none: "\<forall>(category, keywords) \<in> set category_keywords. \<not> any_word_in keywords nm"
      using True empty by blast
    have "\<forall>(category, keywords) \<in> set category_keywords. category \<noteq> ''general''"
      using g by force
    with none show ?thesis
      unfolding c by auto
  next
    case False
    then have c: "categorize_icon nm = ?cats"
      by (simp add: categorize_icon_eq Let_def)
    have some: "\<not> (\<forall>(category, keywords) \<in> set category_keywords. \<not> any_word_in keywords nm)"
      using False empty by blast
    have m: "\<forall>(category, keywords) \<in> set category_keywords.
         category \<in> set ?cats \<longleftrightarrow> any_word_in keywords nm"
      using mem by blast
    show ?thesis
      unfolding c using False dc gen some m by blast
  qed
qed

lemmas categorize_icon_props = categorize_icon_hits [unfolded any_word_in_iff]


subsection \<open>The catalog dictionary\<close>

lemma set_update_subset: "set (AList.update k v al) \<subseteq> insert (k, v) (set al)"
  by (induction al) auto

lemma update_fresh: "k \<notin> fst ` set al \<Longrightarrow> AList.update k v al = al @ [(k, v)]"
  by (induction al) auto

lemma fold_update_entries:
  "(n, r) \<in> set (fold (\<lambda>k d. AList.update k (mk k) d) ks acc)
     \<Longrightarrow> (n, r) \<in> set acc \<or> (n \<in> set ks \<and> r = mk n)"
proof (induction ks arbitrary: acc)
  case Nil
  then show ?case by simp
next
  case (Cons k ks)
  from Cons.prems have "(n, r) \<in> set (fold (\<lambda>k d. AList.update k (mk k) d) ks (AList.update k (mk k) acc))"
    by simp
  then have "(n, r) \<in> set (AList.update k (mk k) acc) \<or> (n \<in> set ks \<and> r = mk n)"
    by (rule Cons.IH)
  then show ?case
    using set_update_subset [of k "mk k" acc] by auto
qed

lemma fold_update_keys:
  "fst ` set (fold (\<lambda>k d. AList.update k (mk k) d) ks acc) = set ks \<union> fst ` set acc"
  by (induction ks arbitrary: acc) (auto simp: dom_update)

lemma fold_update_distinct:
  "distinct (map fst acc) \<Longrightarrow> distinct (map fst (fold (\<lambda>k d. AList.update k (mk k) d) ks acc))"
  by (induction ks arbitrary: acc) (auto simp: distinct_update)

lemma fold_update_fresh:
  "distinct ks \<Longrightarrow> set ks \<inter> fst ` set acc = {}
     \<Longrightarrow> fold (\<lambda>k d. AList.update k (mk k) d) ks acc = acc @ map (\<lambda>k. (k, mk k)) ks"
proof (induction ks arbitrary: acc)
  case Nil
  show ?case by simp
next
  case (Cons k ks)
  from Cons.prems have f: "k \<notin> fst ` set acc" by auto
  have "set ks \<inter> fst ` set (acc @ [(k, mk k)]) = {}"
    using Cons.prems by auto
  with Cons.prems(1) have "fold (\<lambda>k d. AList.update k (mk k) d) ks (acc @ [(k, mk k)])
      = (acc @ [(k, mk k)]) @ map (\<lambda>k. (k, mk k)) ks"
    by (intro Cons.IH) simp_all
  then show ?case
    by (simp add: update_fresh [OF f])
qed

text \<open>The catalog that \<^verbatim>\<open>generate_metadata_from_svg\<close> builds.\<close>

lemma builder_icons:
  "icons (icons_json (generate_metadata_from_svg list_set svg_dir)) =
     build_icons_data list_set (scan_svg_files svg_dir)"
  by (simp add: generate_metadata_from_svg_def Let_def case_prod_beta)

lemma builder_count:
  "count (icons_json (generate_metadata_from_svg list_set svg_dir)) =
     length (icons (icons_json (generate_metadata_from_svg list_set svg_dir)))"
  by (simp add: generate_metadata_from_svg_def Let_def case_prod_beta)

lemma builder_entry:
  assumes "(n, r) \<in> set (build_icons_data list_set svg_names)"
  shows "n \<in> set svg_names \<and>
         r = \<lparr>name = n, svg_file = ''svg/'' @ n @ ''.svg'',
                tags = generate_tags_from_name list_set n,
                categories = categorize_icon n, contributors = []\<rparr>"
  using fold_update_entries [OF assms [unfolded build_icons_data_def]] by simp

lemma builder_keys:
  "distinct (map fst (build_icons_data list_set svg_names))
   \<and> fst ` set (build_icons_data list_set svg_names) = set svg_names"
  unfolding build_icons_data_def by (simp add: fold_update_distinct fold_update_keys)

lemma builder_icons_distinct:
  assumes "distinct svg_names"
  shows "build_icons_data list_set svg_names =
     map (\<lambda>svg_name. (svg_name,
                \<lparr>name = svg_name,
                 svg_file = ''svg/'' @ svg_name @ ''.svg'',
                 tags = generate_tags_from_name list_set svg_name,
                 categories = categorize_icon svg_name,
                 contributors = []\<rparr>)) svg_names"
  unfolding build_icons_data_def using fold_update_fresh [OF assms, of "[]"] by simp

subsection \<open>The processor's catalog\<close>

lemma process_single_icon_keys:
  "distinct (map fst d) \<Longrightarrow> distinct (map fst (snd (process_single_icon f d)))"
  by (auto simp: process_single_icon_def Let_def distinct_update split: option.splits sidecar.splits)

lemma process_single_icon_stored:
  assumes "fst (process_single_icon f d)"
  shows "map_of (snd (process_single_icon f d)) (stem f) =
           Some \<lparr>name = stem f, svg_file = ''svg/'' @ stem f @ ''.svg'',
                 tags = (case json_file f of Sidecar t c k \<Rightarrow> get_list t | _ \<Rightarrow> []),
                 categories = (case json_file f of Sidecar t c k \<Rightarrow> get_list c | _ \<Rightarrow> []),
                 contributors = (case json_file f of Sidecar t c k \<Rightarrow> get_list k | _ \<Rightarrow> [])\<rparr>"
  using assms
  by (auto simp: process_single_icon_def Let_def update_conv' split: option.splits sidecar.splits if_splits)

lemma process_loop_keys:
  "distinct (map fst d) \<Longrightarrow>
   distinct (map fst (snd (fold (\<lambda>svg_file (processed_count, icons_data).
                    case process_single_icon svg_file icons_data of
                      (True, icons_data') \<Rightarrow> (processed_count + 1, icons_data')
                    | (False, icons_data') \<Rightarrow> (processed_count, icons_data'))
              fs (c, d))))"
proof (induction fs arbitrary: c d)
  case Nil
  then show ?case by simp
next
  case (Cons f fs)
  obtain b d' where p: "process_single_icon f d = (b, d')" by (cases "process_single_icon f d")
  with Cons.prems process_single_icon_keys [of d f] have "distinct (map fst d')" by simp
  with Cons.IH p show ?case by (cases b) simp_all
qed

lemma processor_icons:
  "icons (icons_json (snd (process_icons fs))) = snd (process_loop fs)"
  by (simp add: process_icons_def generate_metadata_def Let_def case_prod_beta)

lemma processor_count:
  "count (icons_json (snd (process_icons fs))) = length (icons (icons_json (snd (process_icons fs))))"
  by (simp add: process_icons_def generate_metadata_def Let_def case_prod_beta)

lemma processor_keys: "distinct (map fst (snd (process_loop fs)))"
  unfolding process_loop_def by (rule process_loop_keys) simp

subsection \<open>Totality of categorisation\<close>

text \<open>
  Claim C7, refuted as stated: \<^verbatim>\<open>process_lucide_icons.py\<close> also synthesises a catalog, and
  for an icon without a JSON file beside it the record's categories are empty.
\<close>

theorem processor_categories_empty:
  "map_of (icons (icons_json (snd (process_icons
      [\<lparr>stem = ''circle'', svg_content = Some ''<svg></svg>'', json_file = NoSidecar,
         write_ok = True\<rparr>])))) ''circle''
    = Some \<lparr>name = ''circle'', svg_file = ''svg/circle.svg'', tags = [], categories = [],
             contributors = []\<rparr>"
  by (simp add: process_icons_def process_loop_def process_single_icon_def generate_metadata_def
      Let_def)

text \<open>
  Claim C7, amended. Every record of a catalog synthesised by \<^verbatim>\<open>build_resources.py\<close>
  has a non-empty list of distinct categories; for every category of the keyword table
  the list holds the category exactly when the name contains one of its keywords as a
  substring; and the list is exactly \<^verbatim>\<open>general\<close> when no keyword of any category occurs
  (and holds \<^verbatim>\<open>general\<close> only then). A record that \<^verbatim>\<open>process_lucide_icons.py\<close> stores
  carries the categories of the JSON file beside the icon, and none when that file or
  its \<^verbatim>\<open>categories\<close> key is absent.
\<close>

theorem builder_categories_total:
  assumes "(n, r) \<in> set (icons (icons_json (generate_metadata_from_svg list_set svg_dir)))"
  shows "categories r \<noteq> []
    \<and> distinct (categories r)
    \<and> (\<forall>(category, keywords) \<in> set category_keywords.
          category \<in> set (categories r)
            \<longleftrightarrow> (\<exists>keyword\<in>set keywords. \<exists>ps ss. n = ps @ keyword @ ss))
    \<and> (''general'' \<in> set (categories r)
          \<longleftrightarrow> (\<forall>(category, keywords) \<in> set category_keywords.
                \<not> (\<exists>keyword\<in>set keywords. \<exists>ps ss. n = ps @ keyword @ ss)))
    \<and> ((\<forall>(category, keywords) \<in> set category_keywords.
                \<not> (\<exists>keyword\<in>set keywords. \<exists>ps ss. n = ps @ keyword @ ss))
          \<longrightarrow> categories r = [''general''])
    \<and> (fst (process_single_icon f d) \<longrightarrow>
          (\<exists>r'. map_of (snd (process_single_icon f d)) (stem f) = Some r'
             \<and> categories r' =
                 (case json_file f of Sidecar t c k \<Rightarrow> get_list c | _ \<Rightarrow> [])))"
proof -
  from assms have "categories r = categorize_icon n"
    unfolding builder_icons using builder_entry by fastforce
  moreover have "fst (process_single_icon f d) \<longrightarrow>
          (\<exists>r'. map_of (snd (process_single_icon f d)) (stem f) = Some r'
             \<and> categories r' =
                 (case json_file f of Sidecar t c k \<Rightarrow> get_list c | _ \<Rightarrow> []))"
    using process_single_icon_stored [of f d] by simp
  ultimately show ?thesis
    using categorize_icon_props [of n] by simp
qed

theorem builder_categories_total_witness:
  "(''file-user'', \<lparr>name = ''file-user'', svg_file = ''svg/file-user.svg'',
        tags = [''file'', ''user'', ''files'', ''users''],
        categories = [''files'', ''social''], contributors = []\<rparr>)
     \<in> set (icons (icons_json (generate_metadata_from_svg remdups (Some [''zebra'', ''file-user'']))))
   \<and> (''zebra'', \<lparr>name = ''zebra'', svg_file = ''svg/zebra.svg'', tags = [''zebra''],
        categories = [''general''], contributors = []\<rparr>)
     \<in> set (icons (icons_json (generate_metadata_from_svg remdups (Some [''zebra'', ''file-user'']))))
   \<and> [''files'', ''social''] \<noteq> [] \<and> [''general''] \<noteq> ([] :: string list)"
proof -
  let ?md = "generate_metadata_from_svg remdups (Some [''zebra'', ''file-user''])"
  let ?fu = "\<lparr>name = ''file-user'', svg_file = ''svg/file-user.svg'',
        tags = [''file'', ''user'', ''files'', ''users''],
        categories = [''files'', ''social''], contributors = []\<rparr>"
  let ?z = "\<lparr>name = ''zebra'', svg_file = ''svg/zebra.svg'', tags = [''zebra''],
        categories = [''general''], contributors = []\<rparr>"
  have e: "icons (icons_json ?md) = [(''zebra'', ?z), (''file-user'', ?fu)]"
    unfolding builder_icons by code_simp
  have a: "(''file-user'', ?fu) \<in> set (icons (icons_json ?md))"
    and b: "(''zebra'', ?z) \<in> set (icons (icons_json ?md))"
    unfolding e by simp_all
  from builder_categories_total [OF a] have "categories ?fu \<noteq> []" by blast
  moreover from builder_categories_total [OF b] have "categories ?z \<noteq> []" by blast
  ultimately show ?thesis using a b by simp
qed

subsection \<open>The count field\<close>

text \<open>
  Claim C10. In the \<^verbatim>\<open>icons.json\<close> written by \<^verbatim>\<open>build_resources.py\<close> and in the one written
  by \<^verbatim>\<open>process_lucide_icons.py\<close>, \<^verbatim>\<open>count\<close> is the number of entries of \<^verbatim>\<open>icons\<close>, whose keys
  are distinct; without an SVG directory, and without input files, \<^verbatim>\<open>count\<close> is 0 and
  \<^verbatim>\<open>icons\<close> is empty.
\<close>

theorem count_is_number_of_icons:
  "count (icons_json (generate_metadata_from_svg list_set svg_dir))
      = length (icons (icons_json (generate_metadata_from_svg list_set svg_dir)))
   \<and> distinct (map fst (icons (icons_json (generate_metadata_from_svg list_set svg_dir))))
   \<and> count (icons_json (generate_metadata_from_svg list_set svg_dir))
      = card (dom (map_of (icons (icons_json (generate_metadata_from_svg list_set svg_dir)))))
   \<and> count (icons_json (generate_metadata_from_svg list_set svg_dir))
      = card (set (scan_svg_files svg_dir))
   \<and> count (icons_json (snd (process_icons icon_files)))
      = length (icons (icons_json (snd (process_icons icon_files))))
   \<and> distinct (map fst (icons (icons_json (snd (process_icons icon_files)))))
   \<and> count (icons_json (snd (process_icons icon_files)))
      = card (dom (map_of (icons (icons_json (snd (process_icons icon_files))))))
   \<and> icons (icons_json (generate_metadata_from_svg list_set None)) = []
   \<and> count (icons_json (generate_metadata_from_svg list_set None)) = 0
   \<and> icons (icons_json (snd (process_icons []))) = []
   \<and> count (icons_json (snd (process_icons []))) = 0"
proof -
  let ?b = "icons (icons_json (generate_metadata_from_svg list_set svg_dir))"
  let ?p = "icons (icons_json (snd (process_icons icon_files)))"
  have db: "distinct (map fst ?b)" and kb: "fst ` set ?b = set (scan_svg_files svg_dir)"
    unfolding builder_icons using builder_keys by blast+
  have dp: "distinct (map fst ?p)"
    unfolding processor_icons by (rule processor_keys)
  have card_dom: "card (dom (map_of al)) = length al" if "distinct (map fst al)"
    for al :: "(string \<times> icon_record) list"
    using that distinct_card [of "map fst al"] by (simp add: dom_map_of_conv_image_fst)
  have "card (set (scan_svg_files svg_dir)) = length ?b"
    using card_dom [OF db] kb by (simp add: dom_map_of_conv_image_fst)
  moreover have "icons (icons_json (generate_metadata_from_svg list_set None)) = []"
    by (simp add: builder_icons scan_svg_files_def build_icons_data_def)
  moreover have "icons (icons_json (snd (process_icons []))) = []"
    by (simp add: processor_icons process_loop_def)
  ultimately show ?thesis
    using db dp card_dom [OF db] card_dom [OF dp]
    by (simp add: builder_count processor_count)
qed

theorem count_is_number_of_icons_witness:
  "count (icons_json (generate_metadata_from_svg remdups (Some [''zebra'', ''arrow-left''])))
     = 2
   \<and> map fst (icons (icons_json (generate_metadata_from_svg remdups (Some [''zebra'', ''arrow-left'']))))
     = [''zebra'', ''arrow-left'']"
proof -
  let ?md = "generate_metadata_from_svg remdups (Some [''zebra'', ''arrow-left''])"
  have k: "map fst (icons (icons_json ?md)) = [''zebra'', ''arrow-left'']"
    unfolding builder_icons by code_simp
  from count_is_number_of_icons [of remdups "Some [''zebra'', ''arrow-left'']" "[]"]
  have "count (icons_json ?md) = length (icons (icons_json ?md))"
    by blast
  also have "\<dots> = length (map fst (icons (icons_json ?md)))"
    by simp
  also have "\<dots> = 2"
    unfolding k by simp
  finally show ?thesis
    using k by simp
qed

subsection \<open>The category and tag indices\<close>

lemma map_of_index_append:
  "map_of (index_append label n idx) k =
     (if k = label then Some (names_under idx label @ [n]) else map_of idx k)"
  by (induction idx) (auto simp: names_under_def)

lemma names_under_index_append:
  "names_under (index_append label n idx) k =
     (if k = label then names_under idx k @ [n] else names_under idx k)"
  by (simp add: names_under_def map_of_index_append)

lemma map_of_fold_index_append:
  "map_of (fold (\<lambda>l idx. index_append l n idx) ls idx) k =
     (if filter (\<lambda>l. l = k) ls = [] then map_of idx k
      else Some (names_under idx k @ map (\<lambda>_. n) (filter (\<lambda>l. l = k) ls)))"
proof (induction ls arbitrary: idx)
  case Nil
  show ?case by simp
next
  case (Cons c ls)
  show ?case
    by (simp add: Cons.IH map_of_index_append names_under_index_append)
qed

lemma names_under_fold_index_append:
  "names_under (fold (\<lambda>l idx. index_append l n idx) ls idx) k =
     names_under idx k @ map (\<lambda>_. n) (filter (\<lambda>l. l = k) ls)"
  by (simp add: names_under_def [of "fold _ _ _"] map_of_fold_index_append)
    (simp add: names_under_def)

lemma map_of_index_loop:
  "map_of (fold (\<lambda>(icon_name, icon_data) idx.
                   fold (\<lambda>l idx. index_append l icon_name idx) (labels icon_data) idx)
             icons_data idx) k =
     (if names_carrying labels icons_data k = [] then map_of idx k
      else Some (names_under idx k @ names_carrying labels icons_data k))"
proof (induction icons_data arbitrary: idx)
  case Nil
  show ?case by (simp add: names_carrying_def)
next
  case (Cons e icons_data)
  obtain n d where e: "e = (n, d)" by (cases e)
  have c: "names_carrying labels (e # icons_data) k =
      map (\<lambda>_. n) (filter (\<lambda>l. l = k) (labels d)) @ names_carrying labels icons_data k"
    by (simp add: names_carrying_def e)
  show ?case
    unfolding c
    by (simp add: e Cons.IH map_of_fold_index_append names_under_fold_index_append)
qed

lemma fold_pair_split:
  "fold (\<lambda>(n, d) (c, t). (F n d c, G n d t)) xs (c0, t0) =
     (fold (\<lambda>(n, d) c. F n d c) xs c0, fold (\<lambda>(n, d) t. G n d t) xs t0)"
  by (induction xs arbitrary: c0 t0) (auto simp: case_prod_beta)

lemma generate_categories_and_tags_split:
  "generate_categories_and_tags icons_data =
     (fold (\<lambda>(icon_name, icon_data) idx.
              fold (\<lambda>l idx. index_append l icon_name idx) (categories icon_data) idx)
        icons_data [],
      fold (\<lambda>(icon_name, icon_data) idx.
              fold (\<lambda>l idx. index_append l icon_name idx) (tags icon_data) idx)
        icons_data [])"
  unfolding generate_categories_and_tags_def
  by (rule fold_pair_split
      [of "\<lambda>n d c. fold (\<lambda>l idx. index_append l n idx) (categories d) c"
          "\<lambda>n d t. fold (\<lambda>l idx. index_append l n idx) (tags d) t"])

lemma index_of_generate_categories_and_tags:
  "map_of (fst (generate_categories_and_tags icons_data)) k =
     (if names_carrying categories icons_data k = [] then None
      else Some (names_carrying categories icons_data k))"
  "map_of (snd (generate_categories_and_tags icons_data)) k =
     (if names_carrying tags icons_data k = [] then None
      else Some (names_carrying tags icons_data k))"
  by (simp_all add: generate_categories_and_tags_split map_of_index_loop names_under_def)

lemma index_of_generate_metadata:
  "map_of (categories_json (generate_metadata icons_data)) k =
     (if names_carrying categories icons_data k = [] then None
      else Some (names_carrying categories icons_data k))"
  "map_of (tags_json (generate_metadata icons_data)) k =
     (if names_carrying tags icons_data k = [] then None
      else Some (names_carrying tags icons_data k))"
  by (simp_all add: generate_metadata_def Let_def map_of_index_loop names_under_def)

lemma filter_eq_distinct:
  "distinct xs \<Longrightarrow> filter (\<lambda>l. l = k) xs = (if k \<in> set xs then [k] else [])"
  by (induction xs) (auto simp: filter_empty_conv)

lemma names_carrying_distinct:
  assumes "\<forall>(n, d) \<in> set icons_data. distinct (labels d)"
  shows "names_carrying labels icons_data k =
           map fst (filter (\<lambda>(n, d). k \<in> set (labels d)) icons_data)"
  using assms
proof (induction icons_data)
  case Nil
  show ?case by (simp add: names_carrying_def)
next
  case (Cons e icons_data)
  obtain n d where e: "e = (n, d)" by (cases e)
  from Cons.prems have dl: "distinct (labels d)" by (simp add: e)
  have one: "filter (\<lambda>l. l = k) (labels d) = (if k \<in> set (labels d) then [k] else [])"
    using dl by (rule filter_eq_distinct)
  have "names_carrying labels (e # icons_data) k =
      map (\<lambda>_. n) (filter (\<lambda>l. l = k) (labels d)) @ names_carrying labels icons_data k"
    by (simp add: names_carrying_def e)
  also have "names_carrying labels icons_data k =
      map fst (filter (\<lambda>(n, d). k \<in> set (labels d)) icons_data)"
    using Cons.prems by (intro Cons.IH) simp
  finally show ?case
    by (simp add: one e)
qed

lemma builder_indices:
  "categories_json (generate_metadata_from_svg list_set svg_dir) =
      fst (generate_categories_and_tags (build_icons_data list_set (scan_svg_files svg_dir)))"
  "tags_json (generate_metadata_from_svg list_set svg_dir) =
      snd (generate_categories_and_tags (build_icons_data list_set (scan_svg_files svg_dir)))"
  by (simp_all add: generate_metadata_from_svg_def Let_def case_prod_beta)

lemma names_under_index:
  assumes "map_of idx k = (if ns = [] then None else Some ns)"
  shows "names_under idx k = ns" and "k \<in> fst ` set idx \<longleftrightarrow> ns \<noteq> []"
proof -
  show "names_under idx k = ns"
    using assms by (simp add: names_under_def)
  have "k \<in> fst ` set idx \<longleftrightarrow> map_of idx k \<noteq> None"
    by (simp add: map_of_eq_None_iff)
  then show "k \<in> fst ` set idx \<longleftrightarrow> ns \<noteq> []"
    using assms by simp
qed

lemma builder_names_carrying:
  assumes "distinct svg_names" and "\<And>n. distinct (labels (mk n))"
  shows "names_carrying labels (map (\<lambda>n. (n, mk n)) svg_names) k =
           filter (\<lambda>n. k \<in> set (labels (mk n))) svg_names"
proof -
  have "\<forall>(n, d) \<in> set (map (\<lambda>n. (n, mk n)) svg_names). distinct (labels d)"
    using assms(2) by auto
  then have "names_carrying labels (map (\<lambda>n. (n, mk n)) svg_names) k =
      map fst (filter (\<lambda>(n, d). k \<in> set (labels d)) (map (\<lambda>n. (n, mk n)) svg_names))"
    by (rule names_carrying_distinct)
  also have "\<dots> = filter (\<lambda>n. k \<in> set (labels (mk n))) svg_names"
    by (induction svg_names) auto
  finally show ?thesis .
qed

text \<open>
  Claim C4, refuted as stated: the names under a label keep the order in which the
  directory scan found the files.
\<close>

theorem index_not_sorted:
  "map_of (categories_json (generate_metadata_from_svg remdups (Some [''file-b'', ''file-a''])))
      ''files'' = Some [''file-b'', ''file-a'']
   \<and> map_of (tags_json (generate_metadata_from_svg remdups (Some [''file-b'', ''file-a''])))
      ''files'' = Some [''file-b'', ''file-a'']
   \<and> \<not> sorted [''file-b'', ''file-a'']"
proof -
  have "generate_categories_and_tags (build_icons_data remdups [''file-b'', ''file-a'']) =
      ([(''files'', [''file-b'', ''file-a''])],
       [(''file'', [''file-b'', ''file-a'']), (''b'', [''file-b'']),
        (''files'', [''file-b'', ''file-a'']), (''a'', [''file-a''])])"
    by code_simp
  then show ?thesis
    by (simp add: builder_indices scan_svg_files_def)
qed

text \<open>
  Claim C4, amended. In \<^verbatim>\<open>categories.json\<close> and \<^verbatim>\<open>tags.json\<close> of \<^verbatim>\<open>build_resources.py\<close>, the
  names under a label are exactly the names of the scanned files that carry the label,
  each once, in the order of the scan; a label is a key exactly when some name carries
  it; the names under a label are sorted when the scan yields the files in sorted order.
  The indices of \<^verbatim>\<open>process_lucide_icons.py\<close> list, under a label, the names of the catalog
  in catalog order, a name once for each time the label stands in its record.
\<close>

theorem index_lists_names_in_scan_order:
  assumes "iteration_order list_set" and "distinct (scan_svg_files svg_dir)"
  shows "names_under (categories_json (generate_metadata_from_svg list_set svg_dir)) label
        = filter (\<lambda>n. label \<in> set (categorize_icon n)) (scan_svg_files svg_dir)
    \<and> names_under (tags_json (generate_metadata_from_svg list_set svg_dir)) label
        = filter (\<lambda>n. label \<in> set (generate_tags_from_name list_set n)) (scan_svg_files svg_dir)
    \<and> (label \<in> fst ` set (categories_json (generate_metadata_from_svg list_set svg_dir))
          \<longleftrightarrow> (\<exists>n\<in>set (scan_svg_files svg_dir). label \<in> set (categorize_icon n)))
    \<and> (label \<in> fst ` set (tags_json (generate_metadata_from_svg list_set svg_dir))
          \<longleftrightarrow> (\<exists>n\<in>set (scan_svg_files svg_dir).
                 label \<in> set (generate_tags_from_name list_set n)))
    \<and> (sorted (scan_svg_files svg_dir) \<longrightarrow>
          sorted (names_under (categories_json (generate_metadata_from_svg list_set svg_dir)) label)
          \<and> sorted (names_under (tags_json (generate_metadata_from_svg list_set svg_dir)) label))
    \<and> names_under (categories_json (generate_metadata icons_data)) label
        = names_carrying categories icons_data label
    \<and> names_under (tags_json (generate_metadata icons_data)) label
        = names_carrying tags icons_data label"
proof -
  let ?names = "scan_svg_files svg_dir"
  let ?mk = "\<lambda>svg_name. \<lparr>name = svg_name,
                 svg_file = ''svg/'' @ svg_name @ ''.svg'',
                 tags = generate_tags_from_name list_set svg_name,
                 categories = categorize_icon svg_name,
                 contributors = []\<rparr>"
  let ?md = "generate_metadata_from_svg list_set svg_dir"
  let ?cs = "filter (\<lambda>n. label \<in> set (categorize_icon n)) ?names"
  let ?ts = "filter (\<lambda>n. label \<in> set (generate_tags_from_name list_set n)) ?names"
  have data: "build_icons_data list_set ?names = map (\<lambda>n. (n, ?mk n)) ?names"
    using assms(2) by (rule builder_icons_distinct)
  have dt: "distinct (tags (?mk n))" for n
    using assms(1) by (simp add: generate_tags_from_name_def iteration_order_def Let_def)
  have dc: "distinct (categories (?mk n))" for n
    using categorize_icon_hits [of n] by simp
  have nc: "names_carrying categories (build_icons_data list_set ?names) label = ?cs"
    unfolding data using builder_names_carrying [OF assms(2), of categories ?mk label] dc by simp
  have nt: "names_carrying tags (build_icons_data list_set ?names) label = ?ts"
    unfolding data using builder_names_carrying [OF assms(2), of tags ?mk label] dt by simp
  have mc: "map_of (categories_json ?md) label = (if ?cs = [] then None else Some ?cs)"
    unfolding builder_indices index_of_generate_categories_and_tags nc ..
  have mt: "map_of (tags_json ?md) label = (if ?ts = [] then None else Some ?ts)"
    unfolding builder_indices index_of_generate_categories_and_tags nt ..
  have pc: "names_under (categories_json (generate_metadata icons_data)) label
        = names_carrying categories icons_data label"
    by (rule names_under_index(1)) (rule index_of_generate_metadata)
  have pt: "names_under (tags_json (generate_metadata icons_data)) label
        = names_carrying tags icons_data label"
    by (rule names_under_index(1)) (rule index_of_generate_metadata)
  show ?thesis
    unfolding names_under_index [OF mc] names_under_index [OF mt] pc pt
    by (auto simp: filter_empty_conv intro: sorted_wrt_filter)
qed

theorem index_lists_names_in_scan_order_witness:
  "iteration_order remdups \<and> distinct (scan_svg_files (Some [''file-b'', ''zebra'', ''file-a'']))
   \<and> names_under (categories_json (generate_metadata_from_svg remdups
        (Some [''file-b'', ''zebra'', ''file-a'']))) ''files'' = [''file-b'', ''file-a'']"
proof -
  let ?dir = "Some [''file-b'', ''zebra'', ''file-a'']"
  have io: "iteration_order remdups"
    by (simp add: iteration_order_def)
  have d: "distinct (scan_svg_files ?dir)"
    by (simp add: scan_svg_files_def)
  have f: "filter (\<lambda>n. ''files'' \<in> set (categorize_icon n)) (scan_svg_files ?dir)
      = [''file-b'', ''file-a'']"
    by code_simp
  from index_lists_names_in_scan_order [OF io d, of "''files''" "[]"]
  have "names_under (categories_json (generate_metadata_from_svg remdups ?dir)) ''files''
      = filter (\<lambda>n. ''files'' \<in> set (categorize_icon n)) (scan_svg_files ?dir)"
    by blast
  with io d f show ?thesis by simp
qed

subsection \<open>Determinism of the generated artifacts\<close>

lemma sort_eq_of_set_eq:
  fixes xs ys :: "'a::linorder list"
  assumes "distinct xs" "distinct ys" "set xs = set ys"
  shows "sort xs = sort ys"
  using assms by (intro sorted_distinct_set_unique) simp_all

lemma builder_lookup:
  assumes "distinct svg_names"
  shows "map_of (build_icons_data list_set svg_names) n =
     (if n \<in> set svg_names
      then Some \<lparr>name = n, svg_file = ''svg/'' @ n @ ''.svg'',
                  tags = generate_tags_from_name list_set n,
                  categories = categorize_icon n, contributors = []\<rparr>
      else None)"
  unfolding builder_icons_distinct [OF assms]
  by (induction svg_names) auto

lemma tags_set_independent:
  assumes "iteration_order ls1" "iteration_order ls2"
  shows "set (generate_tags_from_name ls1 n) = set (generate_tags_from_name ls2 n)"
  using assms by (simp add: generate_tags_from_name_def iteration_order_def Let_def)

text \<open>
  Claim C3, refuted as stated: two runs over the same set of file names write different
  \<^verbatim>\<open>icons.json\<close> documents when the directory scan yields the files in another order, and
  when the set iteration of the process yields the tags in another order.
\<close>

theorem icons_json_depends_on_order:
  "set [''zebra'', ''arrow-left''] = set [''arrow-left'', ''zebra'']
   \<and> map fst (icons (icons_json (generate_metadata_from_svg remdups (Some [''zebra'', ''arrow-left'']))))
       = [''zebra'', ''arrow-left'']
   \<and> map fst (icons (icons_json (generate_metadata_from_svg remdups (Some [''arrow-left'', ''zebra'']))))
       = [''arrow-left'', ''zebra'']
   \<and> icons_json (generate_metadata_from_svg remdups (Some [''zebra'', ''arrow-left'']))
       \<noteq> icons_json (generate_metadata_from_svg remdups (Some [''arrow-left'', ''zebra'']))
   \<and> iteration_order remdups \<and> iteration_order (rev \<circ> remdups)
   \<and> map (tags \<circ> snd) (icons (icons_json (generate_metadata_from_svg remdups (Some [''arrow-left'']))))
       = [[''arrow'', ''left'', ''navigation'']]
   \<and> map (tags \<circ> snd) (icons (icons_json (generate_metadata_from_svg (rev \<circ> remdups) (Some [''arrow-left'']))))
       = [[''navigation'', ''left'', ''arrow'']]
   \<and> icons_json (generate_metadata_from_svg remdups (Some [''arrow-left'']))
       \<noteq> icons_json (generate_metadata_from_svg (rev \<circ> remdups) (Some [''arrow-left'']))"
proof -
  let ?A = "icons_json (generate_metadata_from_svg remdups (Some [''zebra'', ''arrow-left'']))"
  let ?B = "icons_json (generate_metadata_from_svg remdups (Some [''arrow-left'', ''zebra'']))"
  let ?C = "icons_json (generate_metadata_from_svg remdups (Some [''arrow-left'']))"
  let ?D = "icons_json (generate_metadata_from_svg (rev \<circ> remdups) (Some [''arrow-left'']))"
  have a: "map fst (icons ?A) = [''zebra'', ''arrow-left'']"
    unfolding builder_icons by code_simp
  have b: "map fst (icons ?B) = [''arrow-left'', ''zebra'']"
    unfolding builder_icons by code_simp
  have c: "map (tags \<circ> snd) (icons ?C) = [[''arrow'', ''left'', ''navigation'']]"
    unfolding builder_icons by code_simp
  have d: "map (tags \<circ> snd) (icons ?D) = [[''navigation'', ''left'', ''arrow'']]"
    unfolding builder_icons by code_simp
  have ab: "?A \<noteq> ?B"
  proof
    assume "?A = ?B"
    then have "map fst (icons ?A) = map fst (icons ?B)" by simp
    then show False unfolding a b by simp
  qed
  have cd: "?C \<noteq> ?D"
  proof
    assume "?C = ?D"
    then have "map (tags \<circ> snd) (icons ?C) = map (tags \<circ> snd) (icons ?D)" by simp
    then show False unfolding c d by simp
  qed
  have io: "iteration_order remdups" "iteration_order (rev \<circ> remdups)"
    by (simp_all add: iteration_order_def)
  have s: "set [''zebra'', ''arrow-left''] = set [''arrow-left'', ''zebra'']"
    by auto
  show ?thesis
    using s a b ab io c d cd by blast
qed

text \<open>
  Claim C3, amended. For two runs over the same set of file names, whatever the order of
  the directory scans and the set iteration orders of the two processes, the enumeration
  header and the lookup-table header generated from the two metadata stores are the same
  text, and the two \<^verbatim>\<open>icons.json\<close> documents have the same count and version and, for
  every name, records that agree in name, file, categories and contributors and carry
  the same set of tags; the order of the records and of each tag list is that of the scan
  and of the set iteration.
\<close>

theorem generated_headers_deterministic:
  assumes "iteration_order ls1" and "iteration_order ls2"
    and "distinct names1" and "distinct names2" and "set names1 = set names2"
  shows "generate_enums_header
           (map fst (icons (icons_json (generate_metadata_from_svg ls1 (Some names1)))))
       = generate_enums_header
           (map fst (icons (icons_json (generate_metadata_from_svg ls2 (Some names2)))))
    \<and> generate_strings_header
           (map fst (icons (icons_json (generate_metadata_from_svg ls1 (Some names1)))))
       = generate_strings_header
           (map fst (icons (icons_json (generate_metadata_from_svg ls2 (Some names2)))))
    \<and> count (icons_json (generate_metadata_from_svg ls1 (Some names1)))
       = count (icons_json (generate_metadata_from_svg ls2 (Some names2)))
    \<and> version (icons_json (generate_metadata_from_svg ls1 (Some names1)))
       = version (icons_json (generate_metadata_from_svg ls2 (Some names2)))
    \<and> rel_option (\<lambda>r1 r2. name r1 = name r2 \<and> svg_file r1 = svg_file r2
                      \<and> set (tags r1) = set (tags r2) \<and> categories r1 = categories r2
                      \<and> contributors r1 = contributors r2)
         (map_of (icons (icons_json (generate_metadata_from_svg ls1 (Some names1)))) n)
         (map_of (icons (icons_json (generate_metadata_from_svg ls2 (Some names2)))) n)"
proof -
  let ?i1 = "icons (icons_json (generate_metadata_from_svg ls1 (Some names1)))"
  let ?i2 = "icons (icons_json (generate_metadata_from_svg ls2 (Some names2)))"
  have k1: "map fst ?i1 = names1"
    unfolding builder_icons scan_svg_files_def
    by (simp add: builder_icons_distinct [OF assms(3)] comp_def)
  have k2: "map fst ?i2 = names2"
    unfolding builder_icons scan_svg_files_def
    by (simp add: builder_icons_distinct [OF assms(4)] comp_def)
  have s: "sort names1 = sort names2"
    using assms(3-5) by (rule sort_eq_of_set_eq)
  have l: "length names1 = length names2"
    using assms(3-5) by (metis distinct_card)
  have e: "generate_enums_header names1 = generate_enums_header names2"
    by (simp add: generate_enums_header_def enum_values_def s l)
  have t: "generate_strings_header names1 = generate_strings_header names2"
    by (simp add: generate_strings_header_def string_entries_def s)
  have c: "count (icons_json (generate_metadata_from_svg ls1 (Some names1)))
       = count (icons_json (generate_metadata_from_svg ls2 (Some names2)))"
    unfolding builder_count using k1 k2 l by (metis length_map)
  have v: "version (icons_json (generate_metadata_from_svg ls1 (Some names1)))
       = version (icons_json (generate_metadata_from_svg ls2 (Some names2)))"
    by (simp add: generate_metadata_from_svg_def Let_def case_prod_beta)
  have r: "rel_option (\<lambda>r1 r2. name r1 = name r2 \<and> svg_file r1 = svg_file r2
                      \<and> set (tags r1) = set (tags r2) \<and> categories r1 = categories r2
                      \<and> contributors r1 = contributors r2)
         (map_of ?i1 n) (map_of ?i2 n)"
    unfolding builder_icons scan_svg_files_def
    using tags_set_independent [OF assms(1,2), of n] assms(5)
    by (simp add: builder_lookup [OF assms(3)] builder_lookup [OF assms(4)])
  show ?thesis
    unfolding k1 k2 using e t c v r by blast
qed

theorem generated_headers_deterministic_witness:
  "iteration_order remdups \<and> iteration_order (rev \<circ> remdups)
   \<and> distinct [''zebra'', ''arrow-left''] \<and> distinct [''arrow-left'', ''zebra'']
   \<and> set [''zebra'', ''arrow-left''] = set [''arrow-left'', ''zebra'']
   \<and> generate_enums_header
        (map fst (icons (icons_json (generate_metadata_from_svg remdups (Some [''zebra'', ''arrow-left''])))))
     = generate_enums_header
        (map fst (icons (icons_json (generate_metadata_from_svg (rev \<circ> remdups) (Some [''arrow-left'', ''zebra''])))))"
proof -
  have io: "iteration_order remdups" "iteration_order (rev \<circ> remdups)"
    by (simp_all add: iteration_order_def)
  have d: "distinct [''zebra'', ''arrow-left'']" "distinct [''arrow-left'', ''zebra'']"
    by simp_all
  have s: "set [''zebra'', ''arrow-left''] = set [''arrow-left'', ''zebra'']"
    by auto
  from generated_headers_deterministic [OF io d s] io d s show ?thesis
    by blast
qed

section \<open>Usage validation: theorems\<close>

subsection \<open>The validation loop\<close>

lemma validate_loop:
  "available_icons (snd (fold (\<lambda>(icon_name, usages) (all_valid, v).
             if icon_name \<notin> set (available_icons v)
             then (False, v\<lparr>invalid_icons := AList.update icon_name usages (invalid_icons v)\<rparr>)
             else (all_valid, v)) items (b, v))) = available_icons v
   \<and> (fst (fold (\<lambda>(icon_name, usages) (all_valid, v).
             if icon_name \<notin> set (available_icons v)
             then (False, v\<lparr>invalid_icons := AList.update icon_name usages (invalid_icons v)\<rparr>)
             else (all_valid, v)) items (b, v))
        \<longleftrightarrow> b \<and> fst ` set items \<subseteq> set (available_icons v))
   \<and> fst ` set (invalid_icons (snd (fold (\<lambda>(icon_name, usages) (all_valid, v).
             if icon_name \<notin> set (available_icons v)
             then (False, v\<lparr>invalid_icons := AList.update icon_name usages (invalid_icons v)\<rparr>)
             else (all_valid, v)) items (b, v))))
        = fst ` set (invalid_icons v) \<union> (fst ` set items - set (available_icons v))"
proof (induction items arbitrary: b v)
  case Nil
  show ?case by simp
next
  case (Cons e items)
  obtain n us where e: "e = (n, us)" by (cases e)
  show ?case
  proof (cases "n \<in> set (available_icons v)")
    case True
    then show ?thesis
      using Cons.IH [of b v] by (auto simp: e)
  next
    case False
    then show ?thesis
      using Cons.IH [of False "v\<lparr>invalid_icons := AList.update n us (invalid_icons v)\<rparr>"]
      by (auto simp: e dom_update)
  qed
qed

lemma validate_usage_result:
  "(fst (validate_usage v) \<longleftrightarrow> fst ` set (icon_usage v) \<subseteq> set (available_icons v))
   \<and> fst ` set (invalid_icons (snd (validate_usage v)))
        = fst ` set (invalid_icons v) \<union> (fst ` set (icon_usage v) - set (available_icons v))"
  unfolding validate_usage_def using validate_loop [of "icon_usage v" True v] by simp

lemma map_fst_index_append:
  "map fst (index_append k x idx) =
     (if k \<in> set (map fst idx) then map fst idx else map fst idx @ [k])"
  by (induction idx) (fastforce simp: image_iff)+

lemma keys_index_append: "fst ` set (index_append k x idx) = insert k (fst ` set idx)"
proof -
  have "set (map fst (index_append k x idx)) = insert k (set (map fst idx))"
    unfolding map_fst_index_append by auto
  then show ?thesis by simp
qed

lemma scan_usages_loop:
  "available_icons (fold (\<lambda>(icon_name, line_num) v.
                       v\<lparr>icon_usage := index_append icon_name (path, line_num) (icon_usage v)\<rparr>)
                 usages v) = available_icons v
   \<and> invalid_icons (fold (\<lambda>(icon_name, line_num) v.
                       v\<lparr>icon_usage := index_append icon_name (path, line_num) (icon_usage v)\<rparr>)
                 usages v) = invalid_icons v
   \<and> fst ` set (icon_usage (fold (\<lambda>(icon_name, line_num) v.
                       v\<lparr>icon_usage := index_append icon_name (path, line_num) (icon_usage v)\<rparr>)
                 usages v)) = fst ` set (icon_usage v) \<union> fst ` set usages"
proof (induction usages arbitrary: v)
  case Nil
  show ?case by simp
next
  case (Cons u usages)
  obtain n l where u: "u = (n, l)" by (cases u)
  show ?case
    using Cons.IH [of "v\<lparr>icon_usage := index_append n (path, l) (icon_usage v)\<rparr>"]
    by (auto simp: u keys_index_append)
qed

lemma scan_directory_result:
  "available_icons (scan_directory directory v) = available_icons v
   \<and> invalid_icons (scan_directory directory v) = invalid_icons v
   \<and> fst ` set (icon_usage (scan_directory directory v))
        = fst ` set (icon_usage v) \<union> fst ` set (concat (map scan_file_for_icons directory))"
proof (induction directory arbitrary: v)
  case Nil
  show ?case by (simp add: scan_directory_def)
next
  case (Cons f directory)
  let ?step = "\<lambda>file_path v.
             let usages = scan_file_for_icons file_path in
             if usages \<noteq> [] then
               fold (\<lambda>(icon_name, line_num) v.
                       v\<lparr>icon_usage :=
                           index_append icon_name (rel_path file_path, line_num) (icon_usage v)\<rparr>)
                 usages v
             else v"
  have sd: "scan_directory (f # directory) v = scan_directory directory (?step f v)"
    by (simp add: scan_directory_def)
  have st: "available_icons (?step f v) = available_icons v
      \<and> invalid_icons (?step f v) = invalid_icons v
      \<and> fst ` set (icon_usage (?step f v))
          = fst ` set (icon_usage v) \<union> fst ` set (scan_file_for_icons f)"
    using scan_usages_loop [of "rel_path f" "scan_file_for_icons f" v]
    by (simp add: Let_def)
  show ?case
    unfolding sd using Cons.IH [of "?step f v"] st by auto
qed

lemma run_validation_loaded:
  assumes "load_available_icons list_set p = (True, names)"
  shows "(fst (run_validation list_set p) \<longleftrightarrow> set (scanned_candidates p) \<subseteq> set names)
    \<and> fst ` set (invalid_icons (snd (run_validation list_set p)))
         = set (scanned_candidates p) - set names
    \<and> available_icons (snd (run_validation list_set p)) = names"
proof -
  let ?v0 = "\<lparr>available_icons = names, icon_usage = [], invalid_icons = []\<rparr>"
  let ?v1 = "case examples_dir p of None \<Rightarrow> ?v0 | Some directory \<Rightarrow> scan_directory directory ?v0"
  let ?v2 = "case tests_dir p of None \<Rightarrow> ?v1 | Some directory \<Rightarrow> scan_directory directory ?v1"
  let ?ex = "case examples_dir p of None \<Rightarrow> [] | Some directory \<Rightarrow> directory"
  let ?te = "case tests_dir p of None \<Rightarrow> [] | Some directory \<Rightarrow> directory"
  have r: "run_validation list_set p = validate_usage ?v2"
    using assms by (simp add: run_validation_def Let_def split: option.splits)
  have v1: "available_icons ?v1 = names \<and> invalid_icons ?v1 = []
      \<and> fst ` set (icon_usage ?v1) = fst ` set (concat (map scan_file_for_icons ?ex))"
    using scan_directory_result [of _ ?v0] by (cases "examples_dir p") simp_all
  have v2: "available_icons ?v2 = names \<and> invalid_icons ?v2 = []
      \<and> fst ` set (icon_usage ?v2)
          = fst ` set (concat (map scan_file_for_icons ?ex))
            \<union> fst ` set (concat (map scan_file_for_icons ?te))"
    using scan_directory_result [of _ ?v1] v1 by (cases "tests_dir p") simp_all
  have c: "set (scanned_candidates p)
      = fst ` set (concat (map scan_file_for_icons ?ex))
        \<union> fst ` set (concat (map scan_file_for_icons ?te))"
    by (simp add: scanned_candidates_def image_Un)
  have a: "available_icons (snd (validate_usage ?v2)) = names"
    unfolding validate_usage_def using validate_loop [of "icon_usage ?v2" True ?v2] v2 by simp
  show ?thesis
    unfolding r using validate_usage_result [of ?v2] v2 c a by simp
qed

text \<open>
  Claim C8. Once the available names are loaded, the validator exits with status 1
  whenever some scanned candidate is not an available name, whatever
  \<^verbatim>\<open>suggest_corrections\<close> proposes for it, and the invalid entries are exactly the
  candidates that are not available; when every candidate is an available name there is
  no invalid entry and the exit status is 0.
\<close>

theorem validator_exit_status:
  assumes "load_available_icons list_set p = (True, names)"
  shows "((\<exists>c\<in>set (scanned_candidates p). c \<notin> set names) \<longrightarrow>
            validator_main list_set (Some p) = 1 \<and> \<not> fst (run_validation list_set p))
    \<and> fst ` set (invalid_icons (snd (run_validation list_set p)))
         = set (scanned_candidates p) - set names
    \<and> ((\<forall>c\<in>set (scanned_candidates p). c \<in> set names) \<longrightarrow>
            invalid_icons (snd (run_validation list_set p)) = []
            \<and> fst (run_validation list_set p)
            \<and> validator_main list_set (Some p) = 0)"
proof -
  note r = run_validation_loaded [OF assms]
  have e: "invalid_icons (snd (run_validation list_set p)) = []"
    if "\<forall>c\<in>set (scanned_candidates p). c \<in> set names"
  proof -
    from that r have "fst ` set (invalid_icons (snd (run_validation list_set p))) = {}"
      by auto
    then show ?thesis by simp
  qed
  show ?thesis
    using r e by (auto simp: validator_main_def)
qed

theorem validator_exit_status_witness:
  "load_available_icons remdups
      \<lparr>strings_header = Some (Some [''arrow-left'', ''zebra'']), metadata_file = None,
         svg_files = None,
         examples_dir = Some [\<lparr>rel_path = ''examples/main.cpp'',
            file_lines = Some [\<lparr>string_matches = [[''arrow-lef'', ''icon''], []],
                                qtlucide_matches = [[''zebra''], [], []]\<rparr>]\<rparr>],
         tests_dir = None\<rparr> = (True, [''arrow-left'', ''zebra''])
   \<and> scanned_candidates
      \<lparr>strings_header = Some (Some [''arrow-left'', ''zebra'']), metadata_file = None,
         svg_files = None,
         examples_dir = Some [\<lparr>rel_path = ''examples/main.cpp'',
            file_lines = Some [\<lparr>string_matches = [[''arrow-lef'', ''icon''], []],
                                qtlucide_matches = [[''zebra''], [], []]\<rparr>]\<rparr>],
         tests_dir = None\<rparr> = [''arrow-lef'', ''zebra'']
   \<and> suggest_corrections
        \<lparr>available_icons = [''arrow-left'', ''zebra''], icon_usage = [], invalid_icons = []\<rparr>
        ''arrow-lef'' = [''arrow-left'']
   \<and> validator_main remdups (Some
      \<lparr>strings_header = Some (Some [''arrow-left'', ''zebra'']), metadata_file = None,
         svg_files = None,
         examples_dir = Some [\<lparr>rel_path = ''examples/main.cpp'',
            file_lines = Some [\<lparr>string_matches = [[''arrow-lef'', ''icon''], []],
                                qtlucide_matches = [[''zebra''], [], []]\<rparr>]\<rparr>],
         tests_dir = None\<rparr>) = 1
   \<and> load_available_icons remdups
      \<lparr>strings_header = Some (Some [''arrow-left'', ''zebra'']), metadata_file = None,
         svg_files = None,
         examples_dir = Some [\<lparr>rel_path = ''examples/main.cpp'',
            file_lines = Some [\<lparr>string_matches = [[''arrow-left'', ''icon''], []],
                                qtlucide_matches = [[''zebra''], [], []]\<rparr>]\<rparr>],
         tests_dir = None\<rparr> = (True, [''arrow-left'', ''zebra''])
   \<and> validator_main remdups (Some
      \<lparr>strings_header = Some (Some [''arrow-left'', ''zebra'']), metadata_file = None,
         svg_files = None,
         examples_dir = Some [\<lparr>rel_path = ''examples/main.cpp'',
            file_lines = Some [\<lparr>string_matches = [[''arrow-left'', ''icon''], []],
                                qtlucide_matches = [[''zebra''], [], []]\<rparr>]\<rparr>],
         tests_dir = None\<rparr>) = 0"
proof -
  let ?bad = "\<lparr>strings_header = Some (Some [''arrow-left'', ''zebra'']), metadata_file = None,
         svg_files = None,
         examples_dir = Some [\<lparr>rel_path = ''examples/main.cpp'',
            file_lines = Some [\<lparr>string_matches = [[''arrow-lef'', ''icon''], []],
                                qtlucide_matches = [[''zebra''], [], []]\<rparr>]\<rparr>],
         tests_dir = None\<rparr>"
  let ?good = "\<lparr>strings_header = Some (Some [''arrow-left'', ''zebra'']), metadata_file = None,
         svg_files = None,
         examples_dir = Some [\<lparr>rel_path = ''examples/main.cpp'',
            file_lines = Some [\<lparr>string_matches = [[''arrow-left'', ''icon''], []],
                                qtlucide_matches = [[''zebra''], [], []]\<rparr>]\<rparr>],
         tests_dir = None\<rparr>"
  have lb: "load_available_icons remdups ?bad = (True, [''arrow-left'', ''zebra''])"
    by (simp add: load_available_icons_def)
  have lg: "load_available_icons remdups ?good = (True, [''arrow-left'', ''zebra''])"
    by (simp add: load_available_icons_def)
  have cb: "scanned_candidates ?bad = [''arrow-lef'', ''zebra'']"
    by code_simp
  have cg: "scanned_candidates ?good = [''arrow-left'', ''zebra'']"
    by code_simp
  have sg: "suggest_corrections
        \<lparr>available_icons = [''arrow-left'', ''zebra''], icon_usage = [], invalid_icons = []\<rparr>
        ''arrow-lef'' = [''arrow-left'']"
    by code_simp
  have "\<exists>c\<in>set (scanned_candidates ?bad). c \<notin> set [''arrow-left'', ''zebra'']"
    unfolding cb by simp
  with validator_exit_status [OF lb] have b: "validator_main remdups (Some ?bad) = 1"
    by blast
  have "\<forall>c\<in>set (scanned_candidates ?good). c \<in> set [''arrow-left'', ''zebra'']"
    unfolding cg by simp
  with validator_exit_status [OF lg] have g: "validator_main remdups (Some ?good) = 0"
    by blast
  show ?thesis
    using lb cb sg b lg g by blast
qed

subsection \<open>Suggestions\<close>

lemma suggest_loop:
  "fold (\<lambda>a s. if P a then s @ [a] else if Q a then s @ [a] else s) xs s0
     = s0 @ filter (\<lambda>a. P a \<or> Q a) xs"
  by (induction xs arbitrary: s0) auto

lemma suggest_corrections_eq:
  "suggest_corrections v x =
     take 5 (filter (\<lambda>a. (str_in x a \<or> str_in a x) \<or> words_similarity x a > 1 / 2)
               (available_icons v))"
  unfolding suggest_corrections_def
  using suggest_loop [of "\<lambda>a. str_in x a \<or> str_in a x" "\<lambda>a. words_similarity x a > 1 / 2"
      "available_icons v" "[]"]
  by simp

lemma append_new_loop:
  assumes "distinct xs"
  shows "fold (\<lambda>a s. if P a then (if a \<notin> set s then s @ [a] else s) else s) xs s0
     = s0 @ filter (\<lambda>a. P a \<and> a \<notin> set s0) xs"
  using assms
proof (induction xs arbitrary: s0)
  case Nil
  show ?case by simp
next
  case (Cons a xs)
  from Cons.prems have d: "distinct xs" and a: "a \<notin> set xs" by simp_all
  show ?case
  proof (cases "P a \<and> a \<notin> set s0")
    case True
    have "filter (\<lambda>b. P b \<and> b \<notin> set (s0 @ [a])) xs = filter (\<lambda>b. P b \<and> b \<notin> set s0) xs"
      using a by (intro filter_cong) auto
    with True show ?thesis
      by (simp add: Cons.IH [OF d])
  next
    case False
    then show ?thesis
      by (auto simp: Cons.IH [OF d])
  qed
qed

lemma suggest_similar_icons_eq:
  assumes "distinct available"
  shows "suggest_similar_icons x available =
     take 5 (synonym_stage x available @ substring_stage x available @ token_stage x available)"
proof -
  let ?syn = "synonym_stage x available"
  have s0: "(case map_of common_mappings x of
               None \<Rightarrow> []
             | Some mapped \<Rightarrow> [] @ filter (\<lambda>icon. icon \<in> set available) mapped) = ?syn"
    by (simp add: synonym_stage_def split: option.splits)
  have s1: "fold (\<lambda>icon suggestions.
                    if str_in x icon \<or> str_in icon x
                    then (if icon \<notin> set suggestions then suggestions @ [icon] else suggestions)
                    else suggestions) available ?syn
      = ?syn @ substring_stage x available"
    unfolding substring_stage_def
    by (rule append_new_loop [OF assms, of "\<lambda>icon. str_in x icon \<or> str_in icon x"])
  have s2: "fold (\<lambda>icon suggestions.
                    if set (split_on CHR ''-'' x) \<inter> set (split_on CHR ''-'' icon) \<noteq> {}
                    then (if icon \<notin> set suggestions then suggestions @ [icon] else suggestions)
                    else suggestions) available (?syn @ substring_stage x available)
      = (?syn @ substring_stage x available) @ token_stage x available"
    unfolding token_stage_def
    by (rule append_new_loop [OF assms,
          of "\<lambda>icon. set (split_on CHR ''-'' x) \<inter> set (split_on CHR ''-'' icon) \<noteq> {}"])
  show ?thesis
    unfolding suggest_similar_icons_def Let_def s0 s1 s2 by simp
qed

lemma distinct_common_mappings: "\<forall>(k, mapped) \<in> set common_mappings. distinct mapped"
  by (simp add: common_mappings_def)

lemma distinct_stages:
  assumes "distinct available"
  shows "distinct (synonym_stage x available @ substring_stage x available @ token_stage x available)"
proof -
  have "distinct (synonym_stage x available)"
  proof (cases "map_of common_mappings x")
    case None
    then show ?thesis by (simp add: synonym_stage_def)
  next
    case (Some mapped)
    then have "(x, mapped) \<in> set common_mappings" by (rule map_of_SomeD)
    with distinct_common_mappings have "distinct mapped" by blast
    with Some show ?thesis by (simp add: synonym_stage_def)
  qed
  moreover have "distinct (substring_stage x available)" "distinct (token_stage x available)"
    using assms by (simp_all add: substring_stage_def token_stage_def)
  moreover have "set (synonym_stage x available) \<inter> set (substring_stage x available) = {}"
    by (auto simp: substring_stage_def)
  moreover have "(set (synonym_stage x available) \<union> set (substring_stage x available))
      \<inter> set (token_stage x available) = {}"
    by (auto simp: token_stage_def)
  ultimately show ?thesis
    by auto
qed

lemma stages_available:
  "set (synonym_stage x available @ substring_stage x available @ token_stage x available)
     \<subseteq> set available"
proof -
  have "set (synonym_stage x available) \<subseteq> set available"
    by (cases "map_of common_mappings x") (auto simp: synonym_stage_def)
  moreover have "set (substring_stage x available) \<subseteq> set available"
    by (simp add: substring_stage_def)
  moreover have "set (token_stage x available) \<subseteq> set available"
    by (simp add: token_stage_def)
  ultimately show ?thesis
    by simp
qed

lemma edit_synonyms:
  assumes "{''pencil'', ''pen'', ''square-pen''} \<subseteq> set available"
  shows "synonym_stage ''edit'' available = [''pencil'', ''pen'', ''square-pen'']"
proof -
  have "map_of common_mappings ''edit'' = Some [''pencil'', ''pen'', ''square-pen'']"
    by (simp add: common_mappings_def)
  with assms show ?thesis
    by (simp add: synonym_stage_def)
qed

lemma looks_like_edit: "looks_like_icon_name ''edit''"
  by code_simp

text \<open>
  Claim C2, refuted as stated. The usage validator has no synonym table: for \<^verbatim>\<open>edit\<close> and
  the available names \<^verbatim>\<open>pencil\<close>, \<^verbatim>\<open>pen\<close>, \<^verbatim>\<open>square-pen\<close> it flags the name and proposes
  nothing; it lists its suggestions in the iteration order of the available set, so a
  name found by word overlap can precede a name found by containment. The example
  checker, which has the table, proposes in its last group every name that shares one
  word, here with an overlap of one fifth.
\<close>

theorem validator_has_no_synonyms:
  "looks_like_icon_name ''edit''
   \<and> ''edit'' \<notin> set [''pencil'', ''pen'', ''square-pen'']
   \<and> \<not> fst (validate_usage \<lparr>available_icons = [''pencil'', ''pen'', ''square-pen''],
        icon_usage = [(''edit'', [(''examples/main.cpp'', 3)])], invalid_icons = []\<rparr>)
   \<and> suggest_corrections \<lparr>available_icons = [''pencil'', ''pen'', ''square-pen''],
        icon_usage = [(''edit'', [(''examples/main.cpp'', 3)])],
        invalid_icons = [(''edit'', [(''examples/main.cpp'', 3)])]\<rparr> ''edit'' = []
   \<and> suggest_corrections \<lparr>available_icons = [''arrow-up-big'', ''arrow''],
        icon_usage = [], invalid_icons = []\<rparr> ''arrow-big-up'' = [''arrow-up-big'', ''arrow'']
   \<and> \<not> str_in ''arrow-big-up'' ''arrow-up-big'' \<and> \<not> str_in ''arrow-up-big'' ''arrow-big-up''
   \<and> str_in ''arrow'' ''arrow-big-up''
   \<and> suggest_similar_icons ''circle-x'' [''x-square-big-bold''] = [''x-square-big-bold'']
   \<and> words_similarity ''circle-x'' ''x-square-big-bold'' = 1 / 5"
proof -
  have a: "''edit'' \<notin> set [''pencil'', ''pen'', ''square-pen'']"
    by simp
  have b: "\<not> fst (validate_usage \<lparr>available_icons = [''pencil'', ''pen'', ''square-pen''],
        icon_usage = [(''edit'', [(''examples/main.cpp'', 3)])], invalid_icons = []\<rparr>)"
    by (simp add: validate_usage_def)
  have c: "suggest_corrections \<lparr>available_icons = [''pencil'', ''pen'', ''square-pen''],
        icon_usage = [(''edit'', [(''examples/main.cpp'', 3)])],
        invalid_icons = [(''edit'', [(''examples/main.cpp'', 3)])]\<rparr> ''edit'' = []"
    by code_simp
  have d: "suggest_corrections \<lparr>available_icons = [''arrow-up-big'', ''arrow''],
        icon_usage = [], invalid_icons = []\<rparr> ''arrow-big-up'' = [''arrow-up-big'', ''arrow'']"
    by code_simp
  have e: "\<not> str_in ''arrow-big-up'' ''arrow-up-big''" "\<not> str_in ''arrow-up-big'' ''arrow-big-up''"
    "str_in ''arrow'' ''arrow-big-up''"
    by simp_all
  have f: "suggest_similar_icons ''circle-x'' [''x-square-big-bold''] = [''x-square-big-bold'']"
    by code_simp
  have g: "words_similarity ''circle-x'' ''x-square-big-bold'' = 1 / 5"
    by code_simp
  show ?thesis
    using looks_like_edit a b c d e f g by blast
qed

text \<open>
  Claim C2, amended. The literal \<^verbatim>\<open>edit\<close> is a candidate, and a candidate that is not an
  available name makes the usage validator fail and is entered among the invalid names.
  The validator proposes at most 5 names: the first five available names, in the
  iteration order of the available set, that contain the candidate, are contained in it,
  or share more than half of the hyphen-separated words of both names; they are distinct
  and there is no synonym table. The example checker's \<^verbatim>\<open>suggest_similar_icons\<close> proposes
  at most 5 distinct available names: first the available synonyms of the fixed table in
  table order, for \<^verbatim>\<open>edit\<close> the names \<^verbatim>\<open>pencil\<close>, \<^verbatim>\<open>pen\<close>, \<^verbatim>\<open>square-pen\<close> in that order when
  all three exist; then the names related by containment in either direction; then the
  names that share at least one hyphen-separated word.
\<close>

theorem suggestions_ranked:
  assumes "distinct available" and "distinct (available_icons v)"
  shows "looks_like_icon_name ''edit''
    \<and> (x \<in> fst ` set (icon_usage v) \<and> x \<notin> set (available_icons v) \<longrightarrow>
          \<not> fst (validate_usage v) \<and> x \<in> fst ` set (invalid_icons (snd (validate_usage v))))
    \<and> suggest_corrections v x =
          take 5 (filter (\<lambda>a. (str_in x a \<or> str_in a x) \<or> words_similarity x a > 1 / 2)
                    (available_icons v))
    \<and> length (suggest_corrections v x) \<le> 5
    \<and> distinct (suggest_corrections v x)
    \<and> set (suggest_corrections v x) \<subseteq> set (available_icons v)
    \<and> suggest_similar_icons x available =
          take 5 (synonym_stage x available @ substring_stage x available
                    @ token_stage x available)
    \<and> length (suggest_similar_icons x available) \<le> 5
    \<and> distinct (suggest_similar_icons x available)
    \<and> set (suggest_similar_icons x available) \<subseteq> set available
    \<and> ({''pencil'', ''pen'', ''square-pen''} \<subseteq> set available \<longrightarrow>
          prefix [''pencil'', ''pen'', ''square-pen''] (suggest_similar_icons ''edit'' available))"
proof -
  have flag: "x \<in> fst ` set (icon_usage v) \<and> x \<notin> set (available_icons v) \<longrightarrow>
          \<not> fst (validate_usage v) \<and> x \<in> fst ` set (invalid_icons (snd (validate_usage v)))"
    using validate_usage_result [of v] by auto
  have sc: "distinct (suggest_corrections v x)"
      "set (suggest_corrections v x) \<subseteq> set (available_icons v)"
    unfolding suggest_corrections_eq using assms(2)
    by (auto simp: distinct_take dest: in_set_takeD)
  have ss: "distinct (suggest_similar_icons x available)"
      "set (suggest_similar_icons x available) \<subseteq> set available"
    unfolding suggest_similar_icons_eq [OF assms(1)]
    using distinct_stages [OF assms(1), of x] stages_available [of x available]
    by (auto simp: distinct_take dest: in_set_takeD)
  have ed: "prefix [''pencil'', ''pen'', ''square-pen''] (suggest_similar_icons ''edit'' available)"
    if "{''pencil'', ''pen'', ''square-pen''} \<subseteq> set available"
  proof -
    have "suggest_similar_icons ''edit'' available =
        [''pencil'', ''pen'', ''square-pen''] @
          take 2 (substring_stage ''edit'' available @ token_stage ''edit'' available)"
      unfolding suggest_similar_icons_eq [OF assms(1)] edit_synonyms [OF that] by simp
    then show ?thesis by (metis prefixI)
  qed
  show ?thesis
    using looks_like_edit flag sc ss ed
    by (simp add: suggest_corrections_eq suggest_similar_icons_eq [OF assms(1)])
qed

theorem suggestions_ranked_witness:
  "distinct [''zebra'', ''pen'', ''edit-2'', ''square-pen'', ''pencil'', ''file-edit'']
   \<and> {''pencil'', ''pen'', ''square-pen''}
        \<subseteq> set [''zebra'', ''pen'', ''edit-2'', ''square-pen'', ''pencil'', ''file-edit'']
   \<and> suggest_similar_icons ''edit''
        [''zebra'', ''pen'', ''edit-2'', ''square-pen'', ''pencil'', ''file-edit'']
      = [''pencil'', ''pen'', ''square-pen'', ''edit-2'', ''file-edit'']
   \<and> prefix [''pencil'', ''pen'', ''square-pen'']
        (suggest_similar_icons ''edit''
          [''zebra'', ''pen'', ''edit-2'', ''square-pen'', ''pencil'', ''file-edit''])
   \<and> ''edit'' \<in> fst ` set (icon_usage \<lparr>available_icons = [''pencil'', ''pen'', ''square-pen''],
        icon_usage = [(''edit'', [(''examples/main.cpp'', 3)])], invalid_icons = []\<rparr>)
   \<and> ''edit'' \<in> fst ` set (invalid_icons (snd (validate_usage
        \<lparr>available_icons = [''pencil'', ''pen'', ''square-pen''],
         icon_usage = [(''edit'', [(''examples/main.cpp'', 3)])], invalid_icons = []\<rparr>)))"
proof -
  let ?av = "[''zebra'', ''pen'', ''edit-2'', ''square-pen'', ''pencil'', ''file-edit'']"
  let ?v = "\<lparr>available_icons = [''pencil'', ''pen'', ''square-pen''],
         icon_usage = [(''edit'', [(''examples/main.cpp'', 3)])], invalid_icons = []\<rparr>"
  have d: "distinct ?av" by simp
  have dv: "distinct (available_icons ?v)" by simp
  have sub: "{''pencil'', ''pen'', ''square-pen''} \<subseteq> set ?av" by simp
  have val: "suggest_similar_icons ''edit'' ?av
      = [''pencil'', ''pen'', ''square-pen'', ''edit-2'', ''file-edit'']"
    by code_simp
  have u: "''edit'' \<in> fst ` set (icon_usage ?v)" "''edit'' \<notin> set (available_icons ?v)"
    by simp_all
  note t = suggestions_ranked [OF d dv, of "''edit''"]
  from t sub have p: "prefix [''pencil'', ''pen'', ''square-pen''] (suggest_similar_icons ''edit'' ?av)"
    by blast
  from t u have i: "''edit'' \<in> fst ` set (invalid_icons (snd (validate_usage ?v)))"
    by blast
  show ?thesis
    using d sub val p u(1) i by blast
qed

section \<open>The generators as programs: theorems\<close>

text \<open>
  Claim C9. When \<^verbatim>\<open>icons.json\<close> is missing from the metadata directory, the header
  generator and the manifest generator each end with exit status 1 on the uncaught
  \<^verbatim>\<open>FileNotFoundError\<close> that names the missing file, and leave the directories and files as
  they were; the same holds, with the decoding or key error, for a store that does not
  load. Only a store that loads is turned into output, with exit status 0.
\<close>

theorem missing_store_is_hard_error:
  assumes "store_at (path_join metadata_dir ''icons.json'') = StoreMissing"
  shows "exit_code (headers_main [prog, metadata_dir, output_dir] store_at fs) = 1
    \<and> uncaught (headers_main [prog, metadata_dir, output_dir] store_at fs)
        = Some (FileNotFoundError (path_join metadata_dir ''icons.json''))
    \<and> result_fs (headers_main [prog, metadata_dir, output_dir] store_at fs) = fs
    \<and> exit_code (qrc_main [prog', metadata_dir, svg_dir, output_file] store_at fs) = 1
    \<and> uncaught (qrc_main [prog', metadata_dir, svg_dir, output_file] store_at fs)
        = Some (FileNotFoundError (path_join metadata_dir ''icons.json''))
    \<and> result_fs (qrc_main [prog', metadata_dir, svg_dir, output_file] store_at fs) = fs
    \<and> (\<forall>other. (\<forall>icon_keys. other (path_join metadata_dir ''icons.json'') \<noteq> Store icon_keys) \<longrightarrow>
          exit_code (headers_main [prog, metadata_dir, output_dir] other fs) = 1
          \<and> result_fs (headers_main [prog, metadata_dir, output_dir] other fs) = fs
          \<and> exit_code (qrc_main [prog', metadata_dir, svg_dir, output_file] other fs) = 1
          \<and> result_fs (qrc_main [prog', metadata_dir, svg_dir, output_file] other fs) = fs)
    \<and> (\<forall>other. exit_code (headers_main [prog, metadata_dir, output_dir] other fs) = 0
          \<longleftrightarrow> (\<exists>icon_keys. other (path_join metadata_dir ''icons.json'') = Store icon_keys))"
proof -
  have fail: "exit_code (headers_main [prog, metadata_dir, output_dir] other fs) = 1
      \<and> uncaught (headers_main [prog, metadata_dir, output_dir] other fs) = Some e
      \<and> result_fs (headers_main [prog, metadata_dir, output_dir] other fs) = fs
      \<and> exit_code (qrc_main [prog', metadata_dir, svg_dir, output_file] other fs) = 1
      \<and> uncaught (qrc_main [prog', metadata_dir, svg_dir, output_file] other fs) = Some e
      \<and> result_fs (qrc_main [prog', metadata_dir, svg_dir, output_file] other fs) = fs"
    if "load_metadata other metadata_dir = Inl e" for other e
    using that by (simp add: headers_main_def qrc_main_def)
  have miss: "load_metadata store_at metadata_dir
      = Inl (FileNotFoundError (path_join metadata_dir ''icons.json''))"
    using assms by (simp add: load_metadata_def)
  have bad: "\<exists>e. load_metadata other metadata_dir = Inl e"
    if "\<forall>icon_keys. other (path_join metadata_dir ''icons.json'') \<noteq> Store icon_keys" for other
    using that by (cases "other (path_join metadata_dir ''icons.json'')")
      (simp_all add: load_metadata_def)
  have ok: "exit_code (headers_main [prog, metadata_dir, output_dir] other fs) = 0
      \<longleftrightarrow> (\<exists>icon_keys. other (path_join metadata_dir ''icons.json'') = Store icon_keys)" for other
    by (cases "other (path_join metadata_dir ''icons.json'')")
      (simp_all add: headers_main_def load_metadata_def)
  have all_bad: "\<forall>other. (\<forall>icon_keys. other (path_join metadata_dir ''icons.json'') \<noteq> Store icon_keys) \<longrightarrow>
          exit_code (headers_main [prog, metadata_dir, output_dir] other fs) = 1
          \<and> result_fs (headers_main [prog, metadata_dir, output_dir] other fs) = fs
          \<and> exit_code (qrc_main [prog', metadata_dir, svg_dir, output_file] other fs) = 1
          \<and> result_fs (qrc_main [prog', metadata_dir, svg_dir, output_file] other fs) = fs"
    using bad fail by blast
  show ?thesis
    using fail [OF miss] all_bad ok by blast
qed

theorem missing_store_is_hard_error_witness:
  "(\<lambda>path. StoreMissing) (path_join ''resources/icons/metadata'' ''icons.json'') = StoreMissing
   \<and> headers_main [''generate_headers.py'', ''resources/icons/metadata'', ''include/QtLucide'']
        (\<lambda>path. StoreMissing) \<lparr>dirs = [''include''], files = [(''include/old.h'', ''x'')]\<rparr>
      = \<lparr>exit_code = 1,
         uncaught = Some (FileNotFoundError ''resources/icons/metadata/icons.json''),
         result_fs = \<lparr>dirs = [''include''], files = [(''include/old.h'', ''x'')]\<rparr>\<rparr>
   \<and> exit_code (qrc_main [''generate_qrc.py'', ''resources/icons/metadata'',
        ''resources/icons/svg'', ''resources/icons/lucide_icons.qrc'']
        (\<lambda>path. StoreMissing) \<lparr>dirs = [''include''], files = [(''include/old.h'', ''x'')]\<rparr>) = 1"
proof -
  let ?fs = "\<lparr>dirs = [''include''], files = [(''include/old.h'', ''x'')]\<rparr>"
  have m: "(\<lambda>path. StoreMissing) (path_join ''resources/icons/metadata'' ''icons.json'') = StoreMissing"
    by simp
  have p: "path_join ''resources/icons/metadata'' ''icons.json'' = ''resources/icons/metadata/icons.json''"
    by (simp add: path_join_def)
  note t = missing_store_is_hard_error [OF m, where fs = ?fs and prog' = "''generate_qrc.py''"
      and svg_dir = "''resources/icons/svg''"
      and output_file = "''resources/icons/lucide_icons.qrc''"]
  have h: "headers_main [''generate_headers.py'', ''resources/icons/metadata'', ''include/QtLucide'']
        (\<lambda>path. StoreMissing) ?fs
      = \<lparr>exit_code = 1,
         uncaught = Some (FileNotFoundError ''resources/icons/metadata/icons.json''),
         result_fs = ?fs\<rparr>"
    by (simp add: headers_main_def load_metadata_def p)
  from t have "exit_code (qrc_main [''generate_qrc.py'', ''resources/icons/metadata'',
        ''resources/icons/svg'', ''resources/icons/lucide_icons.qrc'']
        (\<lambda>path. StoreMissing) ?fs) = 1"
    by blast
  with m h show ?thesis by blast
qed

lemma headers_written_when_store_loads:
  "headers_main [''generate_headers.py'', ''meta'', ''include'']
     (\<lambda>path. if path = ''meta/icons.json'' then Store [''zebra'', ''arrow-left''] else StoreMissing)
     \<lparr>dirs = [], files = []\<rparr>
   = \<lparr>exit_code = 0, uncaught = None,
      result_fs = \<lparr>dirs = [''include''],
        files = [(''include/QtLucideEnums.h'', generate_enums_header [''zebra'', ''arrow-left'']),
                 (''include/QtLucideStrings.h'', generate_strings_header [''zebra'', ''arrow-left''])]\<rparr>\<rparr>"
  by (simp add: headers_main_def load_metadata_def generate_headers_def path_join_def mkdir_def
      write_text_def)

text \<open>The manifest lists the icons sorted by name, each bound to its file under \<^verbatim>\<open>svg/\<close>.\<close>

lemma manifest_written_when_store_loads:
  "qrc_main [''generate_qrc.py'', ''meta'', ''svg'', ''res/lucide_icons.qrc'']
     (\<lambda>path. if path = ''meta/icons.json'' then Store [''zebra'', ''arrow-left''] else StoreMissing)
     \<lparr>dirs = [], files = []\<rparr>
   = \<lparr>exit_code = 0, uncaught = None,
      result_fs = \<lparr>dirs = [''res''],
        files = [(''res/lucide_icons.qrc'',
          ''<RCC>\<newline>'' @
          ''    <qresource prefix=\"/lucide\">\<newline>'' @
          ''        <file alias=\"arrow-left\">svg/arrow-left.svg</file>\<newline>'' @
          ''        <file alias=\"zebra\">svg/zebra.svg</file>\<newline>'' @
          ''    </qresource>\<newline>'' @
          ''</RCC>'')]\<rparr>\<rparr>"
  by code_simp
end
